theory Spec2Isabelle
  imports Main "HOL-Library.AList"
begin

section \<open>Data model\<close>

text \<open>
  The development embeds \<^verbatim>\<open>parsl/data_provider/dynamic_files.py\<close> (classes
  \<^verbatim>\<open>DynamicFileList\<close>, its inner class \<^verbatim>\<open>DynamicFile\<close> and
  \<^verbatim>\<open>DynamicFileSubList\<close>) and \<^verbatim>\<open>parsl/app/futures.py\<close> (class \<^verbatim>\<open>DataFuture\<close>).
  Python objects live in an explicit store: one table per class, addressed by natural
  numbers, with an allocation counter. Every method takes the store and returns the
  new store together with either its value or the exception it raised, so a state
  change that happens before a \<^verbatim>\<open>raise\<close> is kept.
\<close>

type_synonym exn = string

datatype pyerr =
  TypeError | ValueError | IndexError | KeyError | AttributeError
  | RecursionError | InvalidStateError

text \<open>The state of a \<^verbatim>\<open>concurrent.futures.Future\<close>: pending, or finished with the
  content of its \<^verbatim>\<open>_exception\<close> attribute (\<open>None\<close> when a result was set).\<close>

datatype fut_state = PENDING | FINISHED "exn option"

text \<open>\<^verbatim>\<open>parsl.data_provider.files.File\<close> is not part of the sources; the two attributes the
  code reads are taken as fields (\<^verbatim>\<open>filename\<close> is the attribute of \<^verbatim>\<open>File\<close>,
  \<^verbatim>\<open>filepath\<close> its property).\<close>

record pyfile =
  filepath :: string
  filename :: string

text \<open>A future that something is chained to: a task future (\<^verbatim>\<open>AppFuture\<close>, or the future
  returned by stage-out) or a \<^verbatim>\<open>DynamicFileList\<close>.\<close>

datatype pref = PTask nat | PList nat

text \<open>The content of \<^verbatim>\<open>DynamicFile.file_obj\<close>: \<^verbatim>\<open>None\<close>, a \<^verbatim>\<open>File\<close>, a \<^verbatim>\<open>DataFuture\<close>
  or (through \<^verbatim>\<open>set\<close>) another \<^verbatim>\<open>DynamicFile\<close>.\<close>

datatype fobj = FNone | FFile pyfile | FData nat | FDyn nat

text \<open>An argument of type \<^verbatim>\<open>Union[File, DataFuture, DynamicFile]\<close>.\<close>

datatype arg = AFile pyfile | AData nat | ADyn nat

text \<open>Done-callbacks are bound methods \<^verbatim>\<open>parent_callback\<close>. On a task future the code
  registers those of lists (\<^verbatim>\<open>set_parent\<close>) and of data futures; on a list those of data
  futures and of slot wrappers (\<^verbatim>\<open>DynamicFile.__init__\<close>).\<close>

datatype task_cb = TList nat | TData nat

datatype list_cb = LData nat | LSlot nat

record task =
  t_state :: fut_state
  t_callbacks :: "task_cb list"
  t_outputs :: "nat option"
  t_tid :: int

text \<open>Modelled from the spec: the staging collaborator (the \<^verbatim>\<open>DataFlowKernel\<close> and its
  data manager) is not part of the sources. Section 6 of the specification gives
  \<^verbatim>\<open>stageOut(artifactCopy, executorId, ownerFuture)\<close> an optional follow-on future as its
  result; the field holds the task id of the future this collaborator returns, if it
  returns one. Its other calls
  (\<^verbatim>\<open>replace_task_stage_out\<close>, \<^verbatim>\<open>register_as_output\<close>, the task table) are opaque and
  are taken not to fail.\<close>

record dataflow =
  dk_follow_on :: "int option"

record data_future =
  d_state :: fut_state
  d_file_obj :: pyfile
  d_parent :: pref
  d_tid :: "int option"
  d_app_fut :: pref
  d_data_flow_kernel :: dataflow

text \<open>\<^verbatim>\<open>DynamicFile._is_df\<close> is assigned in \<^verbatim>\<open>__init__\<close>, \<^verbatim>\<open>set\<close> and \<^verbatim>\<open>convert_to_df\<close> only,
  each time together with \<^verbatim>\<open>file_obj\<close> and to \<^verbatim>\<open>isinstance(file_obj, DataFuture)\<close>; it
  is derived from \<open>f_file_obj\<close> (\<open>is_df\<close> below).\<close>

record dynamic_file =
  f_state :: fut_state
  f_parent :: nat
  f_file_obj :: fobj
  f_empty :: bool
  f_staged_out :: bool

text \<open>A \<^verbatim>\<open>slice\<close> with \<^verbatim>\<open>start\<close> and \<^verbatim>\<open>stop\<close> (no step).\<close>

record pyslice =
  sl_start :: "int option"
  sl_stop :: "int option"

text \<open>\<^verbatim>\<open>DynamicFileList\<close>; the last two fields are those \<^verbatim>\<open>DynamicFileSubList\<close> adds.
  \<open>l_files_done\<close> is the dict \<^verbatim>\<open>files_done\<close> in insertion order; a value is the bound
  method \<^verbatim>\<open>done\<close> of a slot wrapper, kept as the wrapper's address.\<close>

record dynamic_file_list =
  l_state :: fut_state
  l_callbacks :: "list_cb list"
  l_items :: "nat list"
  l_files_done :: "(string option \<times> nat) list"
  l_last_idx :: int
  l_executor :: string
  l_parent :: "pref option"
  l_dataflow :: "dataflow option"
  l_sub_callbacks :: "nat list"
  l_in_callback :: bool
  l_staging_inhibited :: bool
  l_output_task_id :: "int option"
  l_task_record :: "nat option"
  l_outputs :: "nat option"
  l_slice :: "pyslice option"
  l_fixed_size :: bool

text \<open>The store. \<open>stage_log\<close> records every call of the collaborator's \<^verbatim>\<open>stage_out\<close>:
  the list, the slot wrapper staged and the file copy handed over.\<close>

record world =
  tasks :: "nat \<Rightarrow> task"
  n_tasks :: nat
  datas :: "nat \<Rightarrow> data_future"
  n_datas :: nat
  slots :: "nat \<Rightarrow> dynamic_file"
  n_slots :: nat
  lists :: "nat \<Rightarrow> dynamic_file_list"
  n_lists :: nat
  stage_log :: "(nat \<times> nat \<times> pyfile) list"

type_synonym 'a io = "world \<Rightarrow> (pyerr + 'a) \<times> world"

definition ret :: "'a \<Rightarrow> 'a io" where
  "ret x = (\<lambda>s. (Inr x, s))"

definition bnd :: "'a io \<Rightarrow> ('a \<Rightarrow> 'b io) \<Rightarrow> 'b io" where
  "bnd m f = (\<lambda>s. case m s of (Inl e, s') \<Rightarrow> (Inl e, s') | (Inr x, s') \<Rightarrow> f x s')"

text \<open>A \<^verbatim>\<open>for\<close> loop whose body may raise.\<close>

fun each :: "('a \<Rightarrow> unit io) \<Rightarrow> 'a list \<Rightarrow> unit io" where
  "each f [] = ret ()"
| "each f (x # xs) = bnd (f x) (\<lambda>_. each f xs)"

definition upd_task :: "nat \<Rightarrow> (task \<Rightarrow> task) \<Rightarrow> world \<Rightarrow> world" where
  "upd_task t f s = s\<lparr>tasks := (tasks s)(t := f (tasks s t))\<rparr>"

definition upd_data :: "nat \<Rightarrow> (data_future \<Rightarrow> data_future) \<Rightarrow> world \<Rightarrow> world" where
  "upd_data d f s = s\<lparr>datas := (datas s)(d := f (datas s d))\<rparr>"

definition upd_slot :: "nat \<Rightarrow> (dynamic_file \<Rightarrow> dynamic_file) \<Rightarrow> world \<Rightarrow> world" where
  "upd_slot r f s = s\<lparr>slots := (slots s)(r := f (slots s r))\<rparr>"

definition upd_list :: "nat \<Rightarrow> (dynamic_file_list \<Rightarrow> dynamic_file_list) \<Rightarrow> world \<Rightarrow> world" where
  "upd_list l f s = s\<lparr>lists := (lists s)(l := f (lists s l))\<rparr>"

section \<open>Futures\<close>

definition exception_of :: "fut_state \<Rightarrow> exn option" where
  "exception_of st = (case st of PENDING \<Rightarrow> None | FINISHED e \<Rightarrow> e)"

text \<open>\<^verbatim>\<open>Future.set_result\<close> (outcome \<open>None\<close>) and \<^verbatim>\<open>Future.set_exception\<close> on a
  \<^verbatim>\<open>DataFuture\<close>; a finished future raises \<^verbatim>\<open>InvalidStateError\<close>. The sources register
  no callback on a \<^verbatim>\<open>DataFuture\<close> or on a \<^verbatim>\<open>DynamicFile\<close>.\<close>

definition set_outcome_data :: "nat \<Rightarrow> exn option \<Rightarrow> unit io" where
  "set_outcome_data d e s =
     (if d_state (datas s d) = PENDING
      then (Inr (), upd_data d (\<lambda>x. x\<lparr>d_state := FINISHED e\<rparr>) s)
      else (Inl InvalidStateError, s))"

definition set_outcome_file :: "nat \<Rightarrow> exn option \<Rightarrow> unit io" where
  "set_outcome_file r e s =
     (if f_state (slots s r) = PENDING
      then (Inr (), upd_slot r (\<lambda>x. x\<lparr>f_state := FINISHED e\<rparr>) s)
      else (Inl InvalidStateError, s))"

text \<open>\<^verbatim>\<open>DataFuture.parent_callback\<close>; \<open>e\<close> is \<^verbatim>\<open>parent_fu._exception\<close>. The provenance
  metadata and \<^verbatim>\<open>register_as_output\<close> that follow \<^verbatim>\<open>set_result\<close> are the
  collaborator's.\<close>

definition parent_callback_data :: "nat \<Rightarrow> exn option \<Rightarrow> unit io" where
  "parent_callback_data d e =
     (case e of Some x \<Rightarrow> set_outcome_data d (Some x) | None \<Rightarrow> set_outcome_data d None)"

text \<open>\<^verbatim>\<open>DynamicFileList.exception\<close> and \<^verbatim>\<open>DynamicFile.exception\<close>: \<^verbatim>\<open>return None\<close>.\<close>

definition exception_list :: "world \<Rightarrow> nat \<Rightarrow> exn option" where
  "exception_list s l = None"

definition exception_file :: "world \<Rightarrow> nat \<Rightarrow> exn option" where
  "exception_file s r = None"

text \<open>\<^verbatim>\<open>DynamicFileList.result\<close>: \<^verbatim>\<open>return self\<close>, whatever the state of the future.\<close>

definition result_list :: "world \<Rightarrow> nat \<Rightarrow> pyerr + nat" where
  "result_list s l = Inr l"

text \<open>\<^verbatim>\<open>DynamicFile.parent_callback\<close>, registered on the owning list \<open>l\<close>. It asks
  \<^verbatim>\<open>parent_fu.exception()\<close>, the accessor above. Setting \<^verbatim>\<open>timestamp\<close> fails on \<^verbatim>\<open>None\<close>
  and on a \<^verbatim>\<open>DynamicFile\<close> (a property without setter); \<^verbatim>\<open>self.parent.dataflow\<close> may be
  \<^verbatim>\<open>None\<close>.\<close>

definition parent_callback_file :: "nat \<Rightarrow> nat \<Rightarrow> unit io" where
  "parent_callback_file r l s =
     (case exception_list s l of
        Some e \<Rightarrow> set_outcome_file r (Some e) s
      | None \<Rightarrow>
         (case f_file_obj (slots s r) of
            FNone \<Rightarrow> (Inl AttributeError, s)
          | FDyn x \<Rightarrow> (Inl AttributeError, s)
          | _ \<Rightarrow>
             (case l_dataflow (lists s (f_parent (slots s r))) of
                None \<Rightarrow> (Inl AttributeError, s)
              | Some k \<Rightarrow> set_outcome_file r None s)))"

text \<open>\<^verbatim>\<open>Future._invoke_callbacks\<close> calls each callback inside \<^verbatim>\<open>try\<close>/\<^verbatim>\<open>except Exception\<close>
  and logs: the exception is dropped, the state the callback reached is kept.\<close>

definition invoke_list_cb :: "nat \<Rightarrow> list_cb \<Rightarrow> world \<Rightarrow> world" where
  "invoke_list_cb l cb s =
     snd ((case cb of
             LData d \<Rightarrow> parent_callback_data d (exception_of (l_state (lists s l)))
           | LSlot r \<Rightarrow> parent_callback_file r l) s)"

definition invoke_callbacks_list :: "nat \<Rightarrow> world \<Rightarrow> world" where
  "invoke_callbacks_list l s = fold (invoke_list_cb l) (l_callbacks (lists s l)) s"

definition set_outcome_list :: "nat \<Rightarrow> exn option \<Rightarrow> unit io" where
  "set_outcome_list l e s =
     (if l_state (lists s l) = PENDING
      then (Inr (), invoke_callbacks_list l (upd_list l (\<lambda>x. x\<lparr>l_state := FINISHED e\<rparr>) s))
      else (Inl InvalidStateError, s))"

text \<open>\<^verbatim>\<open>self.parent._outputs = self\<close>.\<close>

definition set_parent_outputs :: "nat \<Rightarrow> unit io" where
  "set_parent_outputs l s =
     (case l_parent (lists s l) of
        None \<Rightarrow> (Inl AttributeError, s)
      | Some (PTask t) \<Rightarrow> (Inr (), upd_task t (\<lambda>x. x\<lparr>t_outputs := Some l\<rparr>) s)
      | Some (PList p) \<Rightarrow> (Inr (), upd_list p (\<lambda>x. x\<lparr>l_outputs := Some l\<rparr>) s))"

text \<open>\<^verbatim>\<open>DynamicFileList.parent_callback\<close>, registered on the task future \<open>t\<close>.\<close>

definition parent_callback_list :: "nat \<Rightarrow> nat \<Rightarrow> unit io" where
  "parent_callback_list l t s =
     (case exception_of (t_state (tasks s t)) of
        Some e \<Rightarrow> set_outcome_list l (Some e) s
      | None \<Rightarrow> bnd (set_parent_outputs l) (\<lambda>_. set_outcome_list l None) s)"

definition invoke_task_cb :: "nat \<Rightarrow> task_cb \<Rightarrow> world \<Rightarrow> world" where
  "invoke_task_cb t cb s =
     snd ((case cb of
             TList l \<Rightarrow> parent_callback_list l t
           | TData d \<Rightarrow> parent_callback_data d (exception_of (t_state (tasks s t)))) s)"

definition invoke_callbacks_task :: "nat \<Rightarrow> world \<Rightarrow> world" where
  "invoke_callbacks_task t s = fold (invoke_task_cb t) (t_callbacks (tasks s t)) s"

text \<open>The producing task completes: the executor calls \<^verbatim>\<open>set_result\<close> or
  \<^verbatim>\<open>set_exception\<close> on the task future.\<close>

definition set_outcome_task :: "nat \<Rightarrow> exn option \<Rightarrow> unit io" where
  "set_outcome_task t e s =
     (if t_state (tasks s t) = PENDING
      then (Inr (), invoke_callbacks_task t (upd_task t (\<lambda>x. x\<lparr>t_state := FINISHED e\<rparr>) s))
      else (Inl InvalidStateError, s))"

text \<open>\<^verbatim>\<open>Future.add_done_callback\<close>: queued on a pending future, called at once (inside
  \<^verbatim>\<open>try\<close>/\<^verbatim>\<open>except\<close>) on a finished one.\<close>

definition add_done_callback_task :: "nat \<Rightarrow> task_cb \<Rightarrow> world \<Rightarrow> world" where
  "add_done_callback_task t cb s =
     (if t_state (tasks s t) = PENDING
      then upd_task t (\<lambda>x. x\<lparr>t_callbacks := t_callbacks x @ [cb]\<rparr>) s
      else invoke_task_cb t cb s)"

definition add_done_callback_list :: "nat \<Rightarrow> list_cb \<Rightarrow> world \<Rightarrow> world" where
  "add_done_callback_list l cb s =
     (if l_state (lists s l) = PENDING
      then upd_list l (\<lambda>x. x\<lparr>l_callbacks := l_callbacks x @ [cb]\<rparr>) s
      else invoke_list_cb l cb s)"

text \<open>A new task future, as the execution engine creates it.\<close>

definition new_task :: "int \<Rightarrow> world \<Rightarrow> nat \<times> world" where
  "new_task tid s =
     (let t = n_tasks s
      in (t, s\<lparr>tasks := (tasks s)(t := \<lparr>t_state = PENDING, t_callbacks = [],
                                          t_outputs = None, t_tid = tid\<rparr>),
               n_tasks := Suc t\<rparr>))"

text \<open>\<^verbatim>\<open>DataFuture.__init__(self, fut, file_obj, dfk, tid=None, app_fut=None)\<close>. The
  parameter \<^verbatim>\<open>dfk\<close> has no default: a call that does not pass it raises \<^verbatim>\<open>TypeError\<close>
  before the body runs (\<open>dfk = None\<close> here). \<^verbatim>\<open>file_obj\<close> must be a \<^verbatim>\<open>File\<close>
  (typeguard, and the \<^verbatim>\<open>ValueError\<close> of the body behind it). The metadata captured when
  provenance is on belongs to the file system.\<close>

definition init_data ::
  "pref \<Rightarrow> fobj \<Rightarrow> dataflow option \<Rightarrow> int option \<Rightarrow> pref option \<Rightarrow> nat io" where
  "init_data fut fo dfk tid app_fut s =
     (case dfk of
        None \<Rightarrow> (Inl TypeError, s)
      | Some k \<Rightarrow>
         (case fo of
            FFile fl \<Rightarrow>
              (let d = n_datas s;
                   s1 = s\<lparr>datas := (datas s)(d :=
                            \<lparr>d_state = PENDING, d_file_obj = fl, d_parent = fut, d_tid = tid,
                             d_app_fut = (case app_fut of Some a \<Rightarrow> a | None \<Rightarrow> fut),
                             d_data_flow_kernel = k\<rparr>),
                          n_datas := Suc d\<rparr>
               in (Inr d, (case fut of
                             PTask t \<Rightarrow> add_done_callback_task t (TData d) s1
                           | PList l \<Rightarrow> add_done_callback_list l (LData d) s1)))
          | _ \<Rightarrow> (Inl TypeError, s)))"

section \<open>DynamicFile\<close>

definition is_df :: "world \<Rightarrow> nat \<Rightarrow> bool" where
  "is_df s r = (case f_file_obj (slots s r) of FData d \<Rightarrow> True | _ \<Rightarrow> False)"

text \<open>\<^verbatim>\<open>DynamicFileList.wrap\<close>, that is \<^verbatim>\<open>DynamicFile.__init__(self, fut, file_obj)\<close> with
  the list as \<^verbatim>\<open>fut\<close>.\<close>

definition wrap :: "nat \<Rightarrow> fobj \<Rightarrow> world \<Rightarrow> nat \<times> world" where
  "wrap l fo s =
     (let r = n_slots s;
          s1 = s\<lparr>slots := (slots s)(r :=
                   \<lparr>f_state = PENDING, f_parent = l, f_file_obj = fo,
                    f_empty = (fo = FNone), f_staged_out = False\<rparr>),
                 n_slots := Suc r\<rparr>
      in (r, add_done_callback_list l (LSlot r) s1))"

text \<open>\<^verbatim>\<open>DynamicFile.done\<close>; \<^verbatim>\<open>DataFuture.done\<close> is \<^verbatim>\<open>Future.done\<close>.\<close>

definition done_file :: "world \<Rightarrow> nat \<Rightarrow> bool" where
  "done_file s r =
     (case f_file_obj (slots s r) of
        FData d \<Rightarrow> d_state (datas s d) \<noteq> PENDING
      | _ \<Rightarrow> True)"

text \<open>The property \<^verbatim>\<open>filepath\<close> of whatever \<^verbatim>\<open>file_obj\<close> holds. A \<^verbatim>\<open>DynamicFile\<close> hands the
  question to its own \<^verbatim>\<open>file_obj\<close>; the first argument bounds the depth of these calls
  as the interpreter's recursion limit does.\<close>

fun obj_filepath :: "nat \<Rightarrow> world \<Rightarrow> fobj \<Rightarrow> pyerr + string" where
  "obj_filepath 0 s fo = Inl RecursionError"
| "obj_filepath (Suc n) s FNone = Inl AttributeError"
| "obj_filepath (Suc n) s (FFile fl) = Inr (filepath fl)"
| "obj_filepath (Suc n) s (FData d) = Inr (filepath (d_file_obj (datas s d)))"
| "obj_filepath (Suc n) s (FDyn r) = obj_filepath n s (f_file_obj (slots s r))"

definition recursion_limit :: nat where
  "recursion_limit = 1000"

text \<open>The property \<^verbatim>\<open>DynamicFile.filename\<close>.\<close>

definition filename_file :: "world \<Rightarrow> nat \<Rightarrow> pyerr + string option" where
  "filename_file s r =
     (case f_file_obj (slots s r) of
        FNone \<Rightarrow> Inr None
      | fo \<Rightarrow> (case obj_filepath recursion_limit s fo of
                 Inl e \<Rightarrow> Inl e | Inr p \<Rightarrow> Inr (Some p)))"

text \<open>\<^verbatim>\<open>.filename\<close> of an argument: the attribute of a \<^verbatim>\<open>File\<close>, the property of a
  \<^verbatim>\<open>DataFuture\<close> (its \<^verbatim>\<open>filepath\<close>) or of a \<^verbatim>\<open>DynamicFile\<close>.\<close>

definition filename_arg :: "world \<Rightarrow> arg \<Rightarrow> pyerr + string option" where
  "filename_arg s a =
     (case a of
        AFile fl \<Rightarrow> Inr (Some (filename fl))
      | AData d \<Rightarrow> Inr (Some (filepath (d_file_obj (datas s d))))
      | ADyn r \<Rightarrow> filename_file s r)"

definition fobj_of :: "arg \<Rightarrow> fobj" where
  "fobj_of a = (case a of AFile fl \<Rightarrow> FFile fl | AData d \<Rightarrow> FData d | ADyn r \<Rightarrow> FDyn r)"

text \<open>\<^verbatim>\<open>DynamicFileList.add_done_func\<close>: \<^verbatim>\<open>self.files_done[name] = func\<close>.\<close>

definition add_done_func :: "nat \<Rightarrow> string option \<Rightarrow> nat \<Rightarrow> world \<Rightarrow> world" where
  "add_done_func l name r s =
     upd_list l (\<lambda>x. x\<lparr>l_files_done := AList.update name r (l_files_done x)\<rparr>) s"

text \<open>\<^verbatim>\<open>DynamicFile.set\<close>. The first assignment (for a \<^verbatim>\<open>DynamicFile\<close> argument) is
  overwritten by the second, as in the source.\<close>

definition set_file :: "nat \<Rightarrow> arg \<Rightarrow> unit io" where
  "set_file r a s =
     (let s0 = (case a of
                  ADyn x \<Rightarrow> upd_slot r (\<lambda>y. y\<lparr>f_file_obj := f_file_obj (slots s x)\<rparr>) s
                | _ \<Rightarrow> s);
          s1 = upd_slot r (\<lambda>y. y\<lparr>f_file_obj := fobj_of a, f_empty := False\<rparr>) s0
      in (case filename_arg s1 a of
            Inl e \<Rightarrow> (Inl e, s1)
          | Inr name \<Rightarrow> (Inr (), add_done_func (f_parent (slots s1 r)) name r s1)))"

text \<open>\<^verbatim>\<open>DynamicFile.convert_to_df\<close>: the call
  \<^verbatim>\<open>DataFuture(self.parent, self.file_obj, tid=self.parent._output_task_id)\<close> passes no
  \<^verbatim>\<open>dfk\<close>.\<close>

definition convert_to_df :: "nat \<Rightarrow> unit io" where
  "convert_to_df r s =
     (if \<not> is_df s r
      then bnd (init_data (PList (f_parent (slots s r))) (f_file_obj (slots s r)) None
                  (l_output_task_id (lists s (f_parent (slots s r)))) None)
             (\<lambda>d s'. (Inr (), upd_slot r (\<lambda>y. y\<lparr>f_file_obj := FData d\<rparr>) s')) s
      else (Inr (), s))"

section \<open>DynamicFileList: reading\<close>

text \<open>\<^verbatim>\<open>list.__getitem__\<close> with an integer: negative indices count from the end.\<close>

definition py_index :: "'a list \<Rightarrow> int \<Rightarrow> pyerr + 'a" where
  "py_index xs i =
     (let n = int (length xs)
      in if 0 \<le> i \<and> i < n then Inr (xs ! nat i)
         else if - n \<le> i \<and> i < 0 then Inr (xs ! nat (n + i))
         else Inl IndexError)"

text \<open>\<^verbatim>\<open>_expand\<close>: \<^verbatim>\<open>for _ in range(idx - len(self) + 1): super().append(self.wrap(None))\<close>.\<close>

fun expand_loop :: "nat \<Rightarrow> nat \<Rightarrow> world \<Rightarrow> world" where
  "expand_loop 0 l s = s"
| "expand_loop (Suc n) l s =
     (case wrap l FNone s of
        (r, s1) \<Rightarrow> expand_loop n l (upd_list l (\<lambda>x. x\<lparr>l_items := l_items x @ [r]\<rparr>) s1))"

definition expand :: "nat \<Rightarrow> int \<Rightarrow> world \<Rightarrow> world" where
  "expand l idx s = expand_loop (nat (idx - int (length (l_items (lists s l))) + 1)) l s"

text \<open>\<^verbatim>\<open>DynamicFileList.__getitem__\<close> with an integer key.\<close>

definition getitem :: "nat \<Rightarrow> int \<Rightarrow> nat io" where
  "getitem l key s =
     (let s1 = (if key \<ge> int (length (l_items (lists s l))) then expand l key s else s)
      in (py_index (l_items (lists s1 l)) key, s1))"

text \<open>\<^verbatim>\<open>DynamicFileList.done\<close>: the loop over \<^verbatim>\<open>self.files_done.values()\<close>.\<close>

fun done_loop :: "world \<Rightarrow> (string option \<times> nat) list \<Rightarrow> bool" where
  "done_loop s [] = True"
| "done_loop s (e # es) = (if \<not> done_file s (snd e) then False else done_loop s es)"

definition done_list :: "world \<Rightarrow> nat \<Rightarrow> bool" where
  "done_list s l = done_loop s (l_files_done (lists s l))"


section \<open>DynamicFileList: staging and observers\<close>

text \<open>The body of the \<^verbatim>\<open>else\<close> branch of \<^verbatim>\<open>stage_file\<close> up to the call of
  \<^verbatim>\<open>stage_out\<close> and the rewiring that follows it. \<open>r\<close> is \<^verbatim>\<open>out_file\<close> (and \<^verbatim>\<open>self[idx]\<close>,
  read again by the source with nothing changed in between), \<open>p\<close> is \<^verbatim>\<open>self.parent\<close>.
  \<^verbatim>\<open>cleancopy\<close> gives an equal file value; \<^verbatim>\<open>self.parent.tid\<close> exists on a task future
  only.\<close>

definition stage_out :: "nat \<Rightarrow> nat \<Rightarrow> dataflow \<Rightarrow> pref \<Rightarrow> unit io" where
  "stage_out l r k p s =
     (case f_file_obj (slots s r) of
        FData d \<Rightarrow>
          (let f_copy = d_file_obj (datas s d);
               s1 = upd_data d (\<lambda>x. x\<lparr>d_file_obj := f_copy\<rparr>) s;
               s2 = s1\<lparr>stage_log := stage_log s1 @ [(l, r, f_copy)]\<rparr>
           in (case dk_follow_on k of
                 Some tid \<Rightarrow>
                   (case new_task tid s2 of
                      (t, s3) \<Rightarrow>
                        (let s4 = upd_data d (\<lambda>x. x\<lparr>d_parent := PTask t\<rparr>) s3
                         in (case p of
                               PTask pt \<Rightarrow>
                                 (Inr (), upd_data d
                                    (\<lambda>x. x\<lparr>d_tid := Some (t_tid (tasks s4 pt))\<rparr>) s4)
                             | PList pl \<Rightarrow> (Inl AttributeError, s4))))
               | None \<Rightarrow> (Inr (), s2)))
      | _ \<Rightarrow> (Inl AttributeError, s))"

text \<open>\<^verbatim>\<open>stage_file\<close>. The argument \<open>cc\<close> is \<^verbatim>\<open>self._call_callbacks\<close>: the list methods
  and the refresh of a view call each other, and the recursion is cut where the
  source cuts it (see \<open>callback\<close>).\<close>

definition stage_file_with :: "(nat \<Rightarrow> unit io) \<Rightarrow> nat \<Rightarrow> int \<Rightarrow> unit io" where
  "stage_file_with cc l idx s =
     (case l_dataflow (lists s l) of
        None \<Rightarrow> (Inr (), s)
      | Some k \<Rightarrow>
          bnd (getitem l idx)
            (\<lambda>out_file s1.
               if f_empty (slots s1 out_file) \<or> f_staged_out (slots s1 out_file)
               then (Inr (), s1)
               else (case l_parent (lists s1 l) of
                       None \<Rightarrow> (Inr (), s1)
                     | Some p \<Rightarrow>
                         if \<not> is_df s1 out_file then (Inr (), s1)
                         else bnd (if l_staging_inhibited (lists s1 l) then ret ()
                                   else stage_out l out_file k p)
                                (\<lambda>_. bnd (set_parent_outputs l) (\<lambda>_. cc l)) s1)) s)"

text \<open>\<^verbatim>\<open>_call_callbacks\<close>; \<open>cbk\<close> runs one registered callback (the method \<^verbatim>\<open>callback\<close> of
  a view). An exception of a callback leaves \<^verbatim>\<open>_in_callback\<close> set.\<close>

definition call_callbacks_with :: "(nat \<Rightarrow> unit io) \<Rightarrow> nat \<Rightarrow> unit io" where
  "call_callbacks_with cbk l s =
     (if l_in_callback (lists s l) then (Inr (), s)
      else bnd (each cbk (l_sub_callbacks (lists s l)))
             (\<lambda>_ s'. (Inr (), upd_list l (\<lambda>x. x\<lparr>l_in_callback := False\<rparr>) s'))
             (upd_list l (\<lambda>x. x\<lparr>l_in_callback := True\<rparr>) s))"

text \<open>\<^verbatim>\<open>range(n)\<close> as a list of indices.\<close>

definition py_range :: "int \<Rightarrow> int list" where
  "py_range n = map int [0..<nat n]"

text \<open>\<^verbatim>\<open>set_dataflow\<close>.\<close>

definition set_dataflow_with ::
  "(nat \<Rightarrow> unit io) \<Rightarrow> nat \<Rightarrow> dataflow \<Rightarrow> string \<Rightarrow> bool \<Rightarrow> int \<Rightarrow> nat \<Rightarrow> unit io" where
  "set_dataflow_with cc l k executor st_inhibited task_id task_record s =
     (let s1 = upd_list l (\<lambda>x. x\<lparr>l_executor := executor, l_dataflow := Some k,
                 l_staging_inhibited := st_inhibited, l_output_task_id := Some task_id,
                 l_task_record := Some task_record\<rparr>) s
      in each (stage_file_with cc l) (py_range (l_last_idx (lists s1 l) + 1)) s1)"

text \<open>\<^verbatim>\<open>set_parent\<close>; the argument is a task future.\<close>

definition set_parent_with :: "(nat \<Rightarrow> unit io) \<Rightarrow> nat \<Rightarrow> nat \<Rightarrow> unit io" where
  "set_parent_with cc l t s =
     (if l_parent (lists s l) \<noteq> None then (Inl ValueError, s)
      else
        (let s1 = upd_list l (\<lambda>x. x\<lparr>l_parent := Some (PTask t)\<rparr>) s;
             s2 = add_done_callback_task t (TList l) s1
         in bnd (each (\<lambda>idx. bnd (getitem l idx)
                                (\<lambda>r. bnd (convert_to_df r) (\<lambda>_. stage_file_with cc l idx)))
                   (py_range (l_last_idx (lists s2 l) + 1)))
              (\<lambda>_. cc l) s2))"

section \<open>DynamicFileList: mutation\<close>

text \<open>The prologue shared by \<^verbatim>\<open>append\<close>, \<^verbatim>\<open>extend\<close> and \<^verbatim>\<open>insert\<close>: an argument that
  is not a \<^verbatim>\<open>DynamicFile\<close> is wrapped, a \<^verbatim>\<open>File\<close> first turned into
  \<^verbatim>\<open>DataFuture(self.parent, f, tid=self._output_task_id)\<close> when a parent is attached. That
  call passes no \<^verbatim>\<open>dfk\<close> either.\<close>

definition wrap_arg :: "nat \<Rightarrow> arg \<Rightarrow> nat io" where
  "wrap_arg l a s =
     (case a of
        ADyn r \<Rightarrow> (Inr r, s)
      | AData d \<Rightarrow> (case wrap l (FData d) s of (r, s') \<Rightarrow> (Inr r, s'))
      | AFile fl \<Rightarrow>
          (case l_parent (lists s l) of
             None \<Rightarrow> (case wrap l (FFile fl) s of (r, s') \<Rightarrow> (Inr r, s'))
           | Some p \<Rightarrow>
               bnd (init_data p (FFile fl) None (l_output_task_id (lists s l)) None)
                 (\<lambda>d s'. case wrap l (FData d) s' of (r, s'') \<Rightarrow> (Inr r, s'')) s))"

text \<open>An expression evaluated for its value, which may raise.\<close>

definition eval :: "(world \<Rightarrow> pyerr + 'a) \<Rightarrow> 'a io" where
  "eval f s = (f s, s)"

text \<open>\<^verbatim>\<open>super().__getitem__(key)\<close> with an integer key.\<close>

definition super_getitem :: "nat \<Rightarrow> int \<Rightarrow> nat io" where
  "super_getitem l key = eval (\<lambda>s. py_index (l_items (lists s l)) key)"

text \<open>\<^verbatim>\<open>append\<close>. In \<^verbatim>\<open>self.files_done[k] = v\<close> the value is evaluated before the key.\<close>

definition append_with :: "(nat \<Rightarrow> unit io) \<Rightarrow> nat \<Rightarrow> arg \<Rightarrow> unit io" where
  "append_with cc l a =
     bnd (wrap_arg l a)
       (\<lambda>obj. bnd (\<lambda>s. if l_last_idx (lists s l) = int (length (l_items (lists s l))) - 1
                       then (Inr (), upd_list l (\<lambda>x. x\<lparr>l_items := l_items x @ [obj]\<rparr>) s)
                       else bnd (super_getitem l (l_last_idx (lists s l) + 1))
                              (\<lambda>slot. set_file slot (ADyn obj)) s)
         (\<lambda>_. bnd (\<lambda>s. super_getitem l (l_last_idx (lists s l) + 1) s)
           (\<lambda>slot. bnd (eval (\<lambda>s. filename_file s obj))
             (\<lambda>name s.
                (let s1 = add_done_func l name slot s;
                     s2 = upd_list l (\<lambda>x. x\<lparr>l_last_idx := l_last_idx x + 1\<rparr>) s1
                 in bnd (stage_file_with cc l (l_last_idx (lists s2 l))) (\<lambda>_. cc l) s2)))))"

text \<open>The first loop of \<^verbatim>\<open>extend\<close>: it builds \<^verbatim>\<open>items\<close> and registers each wrapper.\<close>

fun extend_items :: "nat \<Rightarrow> arg list \<Rightarrow> nat list io" where
  "extend_items l [] = ret []"
| "extend_items l (f # fs) =
     bnd (wrap_arg l f)
       (\<lambda>obj. bnd (eval (\<lambda>s. filename_file s obj))
         (\<lambda>name s. bnd (extend_items l fs) (\<lambda>objs. ret (obj # objs))
                      (add_done_func l name obj s)))"

text \<open>The loop of \<^verbatim>\<open>extend\<close> that fills existing slots.\<close>

definition extend_fill :: "(nat \<Rightarrow> unit io) \<Rightarrow> nat \<Rightarrow> nat \<Rightarrow> unit io" where
  "extend_fill cc l item s =
     (let s1 = upd_list l (\<lambda>x. x\<lparr>l_last_idx := l_last_idx x + 1\<rparr>) s
      in bnd (getitem l (l_last_idx (lists s1 l)))
           (\<lambda>r. bnd (set_file r (ADyn item))
             (\<lambda>_. bnd (\<lambda>s. super_getitem l (l_last_idx (lists s l)) s)
               (\<lambda>slot. bnd (eval (\<lambda>s. filename_file s item))
                 (\<lambda>name s. stage_file_with cc l (l_last_idx (lists s l))
                              (add_done_func l name slot s))))) s1)"

text \<open>\<^verbatim>\<open>extend\<close>. The padding \<^verbatim>\<open>[self.wrap(None)] * abs(diff)\<close> repeats one wrapper.\<close>

definition extend_with :: "(nat \<Rightarrow> unit io) \<Rightarrow> nat \<Rightarrow> arg list \<Rightarrow> unit io" where
  "extend_with cc l fs =
     bnd (extend_items l fs)
       (\<lambda>items s.
          if l_last_idx (lists s l) = int (length (l_items (lists s l))) - 1
          then bnd (each (\<lambda>i s'.
                      (let s1 = upd_list l (\<lambda>x. x\<lparr>l_last_idx := l_last_idx x + 1\<rparr>) s'
                       in stage_file_with cc l (l_last_idx (lists s1 l)) s1))
                      (py_range (int (length items))))
                 (\<lambda>_. cc l)
                 (upd_list l (\<lambda>x. x\<lparr>l_items := l_items x @ items\<rparr>) s)
          else
            (let diff = int (length (l_items (lists s l))) - 1 - l_last_idx (lists s l)
                          - int (length items);
                 s1 = (if diff < 0
                       then (case wrap l FNone s of
                               (w, s') \<Rightarrow> upd_list l
                                  (\<lambda>x. x\<lparr>l_items := l_items x @ replicate (nat \<bar>diff\<bar>) w\<rparr>) s')
                       else s)
             in bnd (each (extend_fill cc l) items) (\<lambda>_. cc l) s1))"

text \<open>\<^verbatim>\<open>list.insert\<close>: the index is clamped to the list.\<close>

definition py_insert :: "int \<Rightarrow> 'a \<Rightarrow> 'a list \<Rightarrow> 'a list" where
  "py_insert i x xs =
     (let n = int (length xs);
          j = (if i < 0 then max (i + n) 0 else min i n)
      in take (nat j) xs @ [x] @ drop (nat j) xs)"

text \<open>\<^verbatim>\<open>insert\<close>.\<close>

definition insert_with :: "(nat \<Rightarrow> unit io) \<Rightarrow> nat \<Rightarrow> int \<Rightarrow> arg \<Rightarrow> unit io" where
  "insert_with cc l index a s =
     (if index > l_last_idx (lists s l) then (Inl ValueError, s)
      else bnd (wrap_arg l a)
             (\<lambda>obj. bnd (eval (\<lambda>s. filename_file s obj))
               (\<lambda>name s.
                  (let s1 = add_done_func l name obj s;
                       s2 = upd_list l (\<lambda>x. x\<lparr>l_items := py_insert index obj (l_items x)\<rparr>) s1
                   in bnd (stage_file_with cc l index)
                        (\<lambda>_ s3. cc l (upd_list l (\<lambda>x. x\<lparr>l_last_idx := l_last_idx x + 1\<rparr>) s3))
                        s2))) s)"

text \<open>\<^verbatim>\<open>del d[k]\<close>.\<close>

definition del_key :: "nat \<Rightarrow> string option \<Rightarrow> unit io" where
  "del_key l name s =
     (if name \<in> fst ` set (l_files_done (lists s l))
      then (Inr (), upd_list l (\<lambda>x. x\<lparr>l_files_done := AList.delete name (l_files_done x)\<rparr>) s)
      else (Inl KeyError, s))"

text \<open>\<^verbatim>\<open>remove\<close>. \<^verbatim>\<open>list.remove\<close> compares with \<^verbatim>\<open>==\<close>, which is identity on futures: only a
  \<^verbatim>\<open>DynamicFile\<close> can be an element.\<close>

definition remove_with :: "(nat \<Rightarrow> unit io) \<Rightarrow> nat \<Rightarrow> arg \<Rightarrow> unit io" where
  "remove_with cc l v =
     bnd (eval (\<lambda>s. filename_arg s v))
       (\<lambda>name. bnd (del_key l name)
         (\<lambda>_ s. (case v of
                    ADyn r \<Rightarrow>
                      if r \<in> set (l_items (lists s l))
                      then cc l (upd_list l (\<lambda>x. x\<lparr>l_items := remove1 r (l_items x),
                                                    l_last_idx := l_last_idx x - 1\<rparr>) s)
                      else (Inl ValueError, s)
                  | _ \<Rightarrow> (Inl ValueError, s))))"

text \<open>\<^verbatim>\<open>clear\<close>.\<close>

definition clear_list :: "nat \<Rightarrow> world \<Rightarrow> world" where
  "clear_list l s =
     upd_list l (\<lambda>x. x\<lparr>l_files_done := [], l_last_idx := - 1, l_items := [],
                       l_sub_callbacks := []\<rparr>) s"

text \<open>\<^verbatim>\<open>__setitem__\<close>.\<close>

definition setitem_with :: "(nat \<Rightarrow> unit io) \<Rightarrow> nat \<Rightarrow> int \<Rightarrow> arg \<Rightarrow> unit io" where
  "setitem_with cc l key v =
     bnd (getitem l key)
       (\<lambda>r0. bnd (eval (\<lambda>s. filename_file s r0))
         (\<lambda>name0. bnd (\<lambda>s. if name0 \<in> fst ` set (l_files_done (lists s l))
                            then bnd (getitem l key)
                                   (\<lambda>r1. bnd (eval (\<lambda>s. filename_file s r1)) (del_key l)) s
                            else (Inr (), s))
           (\<lambda>_. bnd (super_getitem l key)
             (\<lambda>slot s.
                if f_empty (slots s slot)
                then bnd (case v of
                            AFile fl \<Rightarrow>
                              (case l_parent (lists s l) of
                                 Some p \<Rightarrow>
                                   bnd (init_data p (FFile fl) None
                                          (l_output_task_id (lists s l)) None)
                                     (\<lambda>d. ret (AData d))
                               | None \<Rightarrow> ret v)
                          | _ \<Rightarrow> ret v)
                       (\<lambda>v'. bnd (set_file slot v')
                         (\<lambda>_. bnd (eval (\<lambda>s. filename_file s slot))
                           (\<lambda>name s1.
                              (let s2 = add_done_func l name slot s1;
                                   s3 = upd_list l
                                          (\<lambda>x. x\<lparr>l_last_idx := max (l_last_idx x) key\<rparr>) s2
                               in bnd (cc l) (\<lambda>_. stage_file_with cc l key) s3)))) s
                else (Inl ValueError, s)))))"

section \<open>Views\<close>

text \<open>\<^verbatim>\<open>list.__getitem__\<close> with \<^verbatim>\<open>slice(start, stop)\<close>.\<close>

definition py_slice :: "'a list \<Rightarrow> pyslice \<Rightarrow> 'a list" where
  "py_slice xs key =
     (let n = int (length xs);
          norm = (\<lambda>i. if i < 0 then max (i + n) 0 else min i n);
          lo = (case sl_start key of None \<Rightarrow> 0 | Some a \<Rightarrow> norm a);
          hi = (case sl_stop key of None \<Rightarrow> n | Some b \<Rightarrow> norm b)
      in take (nat (hi - lo)) (drop (nat lo) xs))"

text \<open>\<^verbatim>\<open>get_update\<close>.\<close>

definition get_update :: "world \<Rightarrow> nat \<Rightarrow> pyslice \<Rightarrow> nat list" where
  "get_update s l key = py_slice (l_items (lists s l)) key"

text \<open>\<^verbatim>\<open>DynamicFileList.__init__\<close> up to the test of \<^verbatim>\<open>files\<close>.\<close>

definition init_list :: "world \<Rightarrow> nat \<times> world" where
  "init_list s =
     (let l = n_lists s
      in (l, s\<lparr>lists := (lists s)(l :=
                  \<lparr>l_state = PENDING, l_callbacks = [], l_items = [], l_files_done = [],
                   l_last_idx = - 1, l_executor = [], l_parent = None, l_dataflow = None,
                   l_sub_callbacks = [], l_in_callback = False, l_staging_inhibited = False,
                   l_output_task_id = None, l_task_record = None, l_outputs = None,
                   l_slice = None, l_fixed_size = False\<rparr>),
               n_lists := Suc l\<rparr>))"

text \<open>\<^verbatim>\<open>DynamicFileSubList.__init__(key, files, parent)\<close>.\<close>

definition init_sublist :: "(nat \<Rightarrow> unit io) \<Rightarrow> pyslice \<Rightarrow> nat list \<Rightarrow> nat \<Rightarrow> nat io" where
  "init_sublist cc key files parent s =
     (case init_list s of
        (v, s1) \<Rightarrow>
          bnd (extend_with cc v (map ADyn files))
            (\<lambda>_ s2. (Inr v, upd_list v (\<lambda>x. x\<lparr>l_parent := Some (PList parent),
                        l_slice := Some key,
                        l_fixed_size := (sl_stop key \<noteq> None \<and> sl_start key \<noteq> None)\<rparr>) s2))
            s1)"

text \<open>\<^verbatim>\<open>DynamicFileSubList.callback\<close>: \<^verbatim>\<open>self.clear()\<close>, then
  \<^verbatim>\<open>self.extend(self.parent.get_update(self.slice))\<close>.\<close>

definition callback_with :: "(nat \<Rightarrow> unit io) \<Rightarrow> nat \<Rightarrow> unit io" where
  "callback_with cc v s =
     (let s1 = clear_list v s
      in (case l_parent (lists s1 v) of
            Some (PList p) \<Rightarrow>
              (case l_slice (lists s1 v) of
                 Some key \<Rightarrow> extend_with cc v (map ADyn (get_update s1 p key)) s1
               | None \<Rightarrow> (Inl AttributeError, s1))
          | _ \<Rightarrow> (Inl AttributeError, s1)))"

text \<open>\<^verbatim>\<open>clear\<close> empties \<^verbatim>\<open>_sub_callbacks\<close> of the view before \<^verbatim>\<open>extend\<close> runs, so every
  \<^verbatim>\<open>_call_callbacks\<close> of the view during its refresh loops over an empty list: the
  callback it would run is never reached (lemma \<open>callback_with_any\<close>).\<close>

definition callback :: "nat \<Rightarrow> unit io" where
  "callback = callback_with (call_callbacks_with (\<lambda>v. ret ()))"

definition call_callbacks :: "nat \<Rightarrow> unit io" where
  "call_callbacks = call_callbacks_with callback"

definition stage_file :: "nat \<Rightarrow> int \<Rightarrow> unit io" where
  "stage_file = stage_file_with call_callbacks"

definition set_dataflow :: "nat \<Rightarrow> dataflow \<Rightarrow> string \<Rightarrow> bool \<Rightarrow> int \<Rightarrow> nat \<Rightarrow> unit io" where
  "set_dataflow = set_dataflow_with call_callbacks"

definition set_parent :: "nat \<Rightarrow> nat \<Rightarrow> unit io" where
  "set_parent = set_parent_with call_callbacks"

definition append_list :: "nat \<Rightarrow> arg \<Rightarrow> unit io" where
  "append_list = append_with call_callbacks"

definition extend_list :: "nat \<Rightarrow> arg list \<Rightarrow> unit io" where
  "extend_list = extend_with call_callbacks"

definition insert_list :: "nat \<Rightarrow> int \<Rightarrow> arg \<Rightarrow> unit io" where
  "insert_list = insert_with call_callbacks"

definition remove_list :: "nat \<Rightarrow> arg \<Rightarrow> unit io" where
  "remove_list = remove_with call_callbacks"

definition setitem :: "nat \<Rightarrow> int \<Rightarrow> arg \<Rightarrow> unit io" where
  "setitem = setitem_with call_callbacks"

text \<open>\<^verbatim>\<open>__getitem__\<close> with a slice: the two growth loops, then the view.\<close>

definition grow :: "nat \<Rightarrow> int \<Rightarrow> unit io" where
  "grow l n =
     each (\<lambda>i s. case wrap l FNone s of (w, s') \<Rightarrow> append_list l (ADyn w) s') (py_range n)"

definition getitem_slice :: "nat \<Rightarrow> pyslice \<Rightarrow> nat io" where
  "getitem_slice l key =
     bnd (\<lambda>s. case sl_start key of
                None \<Rightarrow> (Inr (), s)
              | Some a \<Rightarrow>
                  if a \<ge> int (length (l_items (lists s l)))
                  then grow l (a + 1 - int (length (l_items (lists s l)))) s
                  else (Inr (), s))
       (\<lambda>_. bnd (\<lambda>s. case sl_stop key of
                        None \<Rightarrow> (Inr (), s)
                      | Some b \<Rightarrow>
                          if b > int (length (l_items (lists s l)))
                          then grow l (b - int (length (l_items (lists s l)))) s
                          else (Inr (), s))
         (\<lambda>_ s. bnd (init_sublist call_callbacks key (get_update s l key) l)
                  (\<lambda>v s'. (Inr v, upd_list l
                              (\<lambda>x. x\<lparr>l_sub_callbacks := l_sub_callbacks x @ [v]\<rparr>) s')) s))"

text \<open>The world before anything is created, and \<^verbatim>\<open>DynamicFileList()\<close> (the branch
  \<^verbatim>\<open>files is None\<close>).\<close>

definition dflt_task :: task where
  "dflt_task = \<lparr>t_state = PENDING, t_callbacks = [], t_outputs = None, t_tid = 0\<rparr>"

definition dflt_data :: data_future where
  "dflt_data = \<lparr>d_state = PENDING, d_file_obj = \<lparr>filepath = [], filename = []\<rparr>,
                d_parent = PTask 0, d_tid = None, d_app_fut = PTask 0,
                d_data_flow_kernel = \<lparr>dk_follow_on = None\<rparr>\<rparr>"

definition dflt_slot :: dynamic_file where
  "dflt_slot = \<lparr>f_state = PENDING, f_parent = 0, f_file_obj = FNone, f_empty = True,
                f_staged_out = False\<rparr>"

definition dflt_list :: dynamic_file_list where
  "dflt_list = \<lparr>l_state = PENDING, l_callbacks = [], l_items = [], l_files_done = [],
                l_last_idx = - 1, l_executor = [], l_parent = None, l_dataflow = None,
                l_sub_callbacks = [], l_in_callback = False, l_staging_inhibited = False,
                l_output_task_id = None, l_task_record = None, l_outputs = None,
                l_slice = None, l_fixed_size = False\<rparr>"

definition world0 :: world where
  "world0 = \<lparr>tasks = (\<lambda>_. dflt_task), n_tasks = 0, datas = (\<lambda>_. dflt_data), n_datas = 0,
             slots = (\<lambda>_. dflt_slot), n_slots = 0, lists = (\<lambda>_. dflt_list), n_lists = 0,
             stage_log = []\<rparr>"

section \<open>Auxiliary definitions for the statements\<close>

text \<open>The wrapper that \<^verbatim>\<open>wrap(None)\<close> creates for list \<open>l\<close>.\<close>

definition empty_slot :: "nat \<Rightarrow> dynamic_file" where
  "empty_slot l = \<lparr>f_state = PENDING, f_parent = l, f_file_obj = FNone, f_empty = True,
                   f_staged_out = False\<rparr>"

text \<open>A store with one list whose \<^verbatim>\<open>files_done\<close> has three entries; the second wrapper
  holds a pending \<^verbatim>\<open>DataFuture\<close>.\<close>

definition w_done :: world where
  "w_done = upd_slot 1 (\<lambda>x. x\<lparr>f_file_obj := FData 0, f_empty := False\<rparr>)
              (upd_list 0 (\<lambda>x. x\<lparr>l_files_done := [(Some ''a'', 0), (Some ''b'', 1), (Some ''c'', 2)]\<rparr>)
                 world0)"


text \<open>A list without its attribute \<^verbatim>\<open>_outputs\<close>, the one attribute of another list that
  the refresh of a view can write.\<close>

definition shape :: "dynamic_file_list \<Rightarrow> dynamic_file_list" where
  "shape L = L\<lparr>l_outputs := None\<rparr>"

section \<open>Scenarios\<close>

definition file_x :: pyfile where
  "file_x = \<lparr>filepath = ''/d/x'', filename = ''x''\<rparr>"

definition file_y :: pyfile where
  "file_y = \<lparr>filepath = ''/d/y'', filename = ''y''\<rparr>"

definition dfk0 :: dataflow where
  "dfk0 = \<lparr>dk_follow_on = None\<rparr>"

text \<open>\<^verbatim>\<open>L = DynamicFileList()\<close> (list 0), and a pending task future \<^verbatim>\<open>T\<close> (task 0).\<close>

definition w_list :: world where
  "w_list = snd (init_list world0)"

definition w_task :: world where
  "w_task = snd (new_task 7 w_list)"

text \<open>\<^verbatim>\<open>L.append(File('/d/x'))\<close> with no parent attached, then \<^verbatim>\<open>L.set_parent(T)\<close>, then
  \<^verbatim>\<open>L.set_parent(T)\<close> again.\<close>

definition w_appended :: world where
  "w_appended = snd (append_list 0 (AFile file_x) w_task)"

definition r_set_parent :: "(pyerr + unit) \<times> world" where
  "r_set_parent = set_parent 0 0 w_appended"

definition r_set_parent_again :: "(pyerr + unit) \<times> world" where
  "r_set_parent_again = set_parent 0 0 (snd r_set_parent)"

text \<open>\<^verbatim>\<open>L.set_parent(T)\<close> on the empty list, then \<^verbatim>\<open>L[0] = File('/d/x')\<close>.\<close>

definition w_attached :: world where
  "w_attached = snd (set_parent 0 0 w_task)"

definition r_write :: "(pyerr + unit) \<times> world" where
  "r_write = setitem 0 0 (AFile file_x) w_attached"

text \<open>\<^verbatim>\<open>L[0] = File('/d/x')\<close> and \<^verbatim>\<open>L[0] = File('/d/y')\<close> with no parent attached.\<close>

definition r_write_free :: "(pyerr + unit) \<times> world" where
  "r_write_free = setitem 0 0 (AFile file_x) w_task"

definition r_write_free_again :: "(pyerr + unit) \<times> world" where
  "r_write_free_again = setitem 0 0 (AFile file_y) (snd r_write_free)"

text \<open>\<^verbatim>\<open>d = DataFuture(T, File('/d/x'), dfk)\<close> (data future 0), \<^verbatim>\<open>L.set_parent(T)\<close>,
  \<^verbatim>\<open>L.append(d)\<close>, then \<^verbatim>\<open>L.set_dataflow(dfk, 'ex', False, 1, record)\<close> twice.\<close>

definition w_data :: world where
  "w_data = snd (init_data (PTask 0) (FFile file_x) (Some dfk0) None None w_task)"

definition w_data_appended :: world where
  "w_data_appended = snd (append_list 0 (AData 0) (snd (set_parent 0 0 w_data)))"

definition r_staged :: "(pyerr + unit) \<times> world" where
  "r_staged = set_dataflow 0 dfk0 ''ex'' False 1 0 w_data_appended"

definition r_staged_again :: "(pyerr + unit) \<times> world" where
  "r_staged_again = set_dataflow 0 dfk0 ''ex'' False 1 0 (snd r_staged)"

text \<open>A second output \<^verbatim>\<open>DataFuture(T, File('/d/y'), dfk)\<close> (data future 1) appended, then
  the task fails with \<^verbatim>\<open>E\<close>.\<close>

definition w_two :: world where
  "w_two = snd (append_list 0 (AData 1)
                 (snd (init_data (PTask 0) (FFile file_y) (Some dfk0) None None w_data_appended)))"

definition r_failed :: "(pyerr + unit) \<times> world" where
  "r_failed = set_outcome_task 0 (Some ''E'') w_two"

text \<open>\<^verbatim>\<open>L.append(File('/d/x'))\<close>, \<^verbatim>\<open>V = L[0:-1]\<close> (list 1), \<^verbatim>\<open>L.append(File('/d/y'))\<close>.\<close>

definition w_one :: world where
  "w_one = snd (append_list 0 (AFile file_x) w_list)"

definition r_view :: "(pyerr + nat) \<times> world" where
  "r_view = getitem_slice 0 \<lparr>sl_start = Some 0, sl_stop = Some (- 1)\<rparr> w_one"

definition r_grown :: "(pyerr + unit) \<times> world" where
  "r_grown = append_list 0 (AFile file_y) (snd r_view)"

text \<open>A third output \<^verbatim>\<open>DataFuture(L, File('/d/y'), dfk)\<close> (data future 2), chained to the
  list itself.\<close>

definition w_chain :: world where
  "w_chain = snd (init_data (PList 0) (FFile file_y) (Some dfk0) None None w_two)"

text \<open>\<^verbatim>\<open>L[1]\<close> (a read that creates two placeholders), \<^verbatim>\<open>V = L[2:4]\<close> (list 1), then
  \<^verbatim>\<open>L.append(File('/d/y'))\<close>.\<close>

definition w_read :: world where
  "w_read = snd (getitem 0 1 w_list)"

definition r_late_view :: "(pyerr + nat) \<times> world" where
  "r_late_view = getitem_slice 0 \<lparr>sl_start = Some 2, sl_stop = Some 4\<rparr> w_read"

definition r_late_grown :: "(pyerr + unit) \<times> world" where
  "r_late_grown = append_list 0 (AFile file_y) (snd r_late_view)"

text \<open>\<^verbatim>\<open>L.append(File('/d/x'))\<close>, then \<^verbatim>\<open>w = L.wrap(File('/d/x'))\<close> (wrapper 1, not an element
  of the list).\<close>

definition w_wrapped :: world where
  "w_wrapped = snd (wrap 0 (FFile file_x) w_one)"

section \<open>Evaluation of the scenarios\<close>

lemma obj_filepath_pos:
  "0 < n \<Longrightarrow> obj_filepath n s fo =
     (case fo of FNone \<Rightarrow> Inl AttributeError
      | FFile fl \<Rightarrow> Inr (filepath fl)
      | FData d \<Rightarrow> Inr (filepath (d_file_obj (datas s d)))
      | FDyn r \<Rightarrow> obj_filepath (n - 1) s (f_file_obj (slots s r)))"
  by (cases n; cases fo) simp_all

lemma expand_loop_pos:
  "0 < n \<Longrightarrow> expand_loop n l s =
     (case wrap l FNone s of
        (r, s1) \<Rightarrow> expand_loop (n - 1) l (upd_list l (\<lambda>x. x\<lparr>l_items := l_items x @ [r]\<rparr>) s1))"
  by (cases n) simp_all

lemmas run_defs =
  ret_def bnd_def eval_def upd_task_def upd_data_def upd_slot_def upd_list_def
  exception_of_def set_outcome_data_def set_outcome_file_def parent_callback_data_def
  exception_list_def exception_file_def result_list_def parent_callback_file_def
  invoke_list_cb_def invoke_callbacks_list_def set_outcome_list_def set_parent_outputs_def
  parent_callback_list_def invoke_task_cb_def invoke_callbacks_task_def set_outcome_task_def
  add_done_callback_task_def add_done_callback_list_def new_task_def init_data_def
  is_df_def wrap_def done_file_def recursion_limit_def filename_file_def filename_arg_def
  fobj_of_def add_done_func_def set_file_def convert_to_df_def py_index_def expand_def
  getitem_def done_list_def stage_out_def stage_file_with_def call_callbacks_with_def
  py_range_def set_dataflow_with_def set_parent_with_def wrap_arg_def super_getitem_def
  append_with_def extend_fill_def extend_with_def py_insert_def insert_with_def del_key_def
  remove_with_def clear_list_def setitem_with_def py_slice_def get_update_def init_list_def
  init_sublist_def callback_with_def callback_def call_callbacks_def stage_file_def
  set_dataflow_def set_parent_def append_list_def extend_list_def insert_list_def
  remove_list_def setitem_def grow_def getitem_slice_def dflt_task_def dflt_data_def
  dflt_slot_def dflt_list_def world0_def Let_def obj_filepath_pos

lemmas scen_defs =
  file_x_def file_y_def dfk0_def w_list_def w_task_def w_appended_def r_set_parent_def
  r_set_parent_again_def w_attached_def r_write_def r_write_free_def r_write_free_again_def
  w_data_def w_data_appended_def r_staged_def r_staged_again_def w_two_def r_failed_def
  w_one_def r_view_def r_grown_def w_chain_def w_read_def r_late_view_def r_late_grown_def w_wrapped_def


section \<open>Reading beyond the end\<close>

lemma wrap_FNone:
  "wrap l FNone s = (n_slots s,
     (if l_state (lists s l) = PENDING
      then upd_list l (\<lambda>x. x\<lparr>l_callbacks := l_callbacks x @ [LSlot (n_slots s)]\<rparr>)
      else id)
     (s\<lparr>slots := (slots s)(n_slots s := empty_slot l), n_slots := Suc (n_slots s)\<rparr>))"
  by (simp add: wrap_def Let_def add_done_callback_list_def invoke_list_cb_def
      parent_callback_file_def exception_list_def upd_list_def empty_slot_def)

lemma expand_loop_n_slots: "n_slots (expand_loop n l s) = n_slots s + n"
  by (induction n arbitrary: s) (simp_all add: wrap_FNone upd_list_def)

lemma expand_loop_items:
  "l_items (lists (expand_loop n l s) l) = l_items (lists s l) @ [n_slots s ..< n_slots s + n]"
  by (induction n arbitrary: s) (simp_all add: wrap_FNone upd_list_def upt_conv_Cons del: upt_Suc)

lemma expand_loop_last_idx:
  "l_last_idx (lists (expand_loop n l s) l') = l_last_idx (lists s l')"
  by (induction n arbitrary: s) (simp_all add: wrap_FNone upd_list_def)

lemma expand_loop_files_done:
  "l_files_done (lists (expand_loop n l s) l') = l_files_done (lists s l')"
  by (induction n arbitrary: s) (simp_all add: wrap_FNone upd_list_def)

lemma expand_loop_old_slots:
  "r < n_slots s \<Longrightarrow> slots (expand_loop n l s) r = slots s r"
  by (induction n arbitrary: s) (simp_all add: wrap_FNone upd_list_def)

lemma expand_loop_new_slots:
  "n_slots s \<le> r \<Longrightarrow> r < n_slots s + n \<Longrightarrow> slots (expand_loop n l s) r = empty_slot l"
proof (induction n arbitrary: s)
  case 0
  then show ?case by simp
next
  case (Suc n)
  show ?case
  proof (cases "r = n_slots s")
    case True
    then show ?thesis
      by (simp add: wrap_FNone upd_list_def expand_loop_old_slots)
  next
    case False
    with Suc.prems show ?thesis
      by (simp add: wrap_FNone upd_list_def Suc.IH)
  qed
qed

text \<open>
  Claim C4. A read \<^verbatim>\<open>list[i]\<close> with \<open>i \<ge> len(list)\<close> returns without error. It creates
  exactly \<open>i - len + 1\<close> new wrappers (the allocation counter moves by that much), appends
  them to the list in order so that the list ends at index \<open>i\<close>, every one of them is
  the Empty wrapper of \<^verbatim>\<open>wrap(None)\<close>, the older wrappers are untouched, and neither the
  high-water mark \<^verbatim>\<open>_last_idx\<close> nor \<^verbatim>\<open>files_done\<close> changes. The value returned is the last
  wrapper created.
\<close>

theorem getitem_beyond_length:
  assumes "int (length (l_items (lists s l))) \<le> i"
  shows "\<exists>r s'. getitem l i s = (Inr r, s')
     \<and> n_slots s' - n_slots s = nat (i - int (length (l_items (lists s l))) + 1)
     \<and> l_items (lists s' l) = l_items (lists s l) @ [n_slots s ..< n_slots s']
     \<and> length (l_items (lists s' l)) = nat i + 1
     \<and> (\<forall>x \<in> set [n_slots s ..< n_slots s']. slots s' x = empty_slot l)
     \<and> (\<forall>x < n_slots s. slots s' x = slots s x)
     \<and> l_last_idx (lists s' l) = l_last_idx (lists s l)
     \<and> l_files_done (lists s' l) = l_files_done (lists s l)
     \<and> r = n_slots s' - 1"
proof -
  let ?n = "length (l_items (lists s l))"
  let ?k = "nat (i - int ?n + 1)"
  let ?s' = "expand_loop ?k l s"
  have k: "?k = nat i + 1 - ?n" "0 < ?k" using assms by auto
  have items: "l_items (lists ?s' l) = l_items (lists s l) @ [n_slots s ..< n_slots s + ?k]"
    by (rule expand_loop_items)
  have len: "length (l_items (lists ?s' l)) = nat i + 1"
    using assms by (simp add: items)
  have idx: "py_index (l_items (lists ?s' l)) i = Inr (n_slots s + ?k - 1)"
  proof -
    have "0 \<le> i" using assms by simp
    moreover have "i < int (length (l_items (lists ?s' l)))" using len by simp
    moreover have "l_items (lists ?s' l) ! nat i = n_slots s + ?k - 1"
    proof -
      have ge: "?n \<le> nat i" using assms by simp
      have "l_items (lists ?s' l) ! nat i = [n_slots s ..< n_slots s + ?k] ! (nat i - ?n)"
        unfolding items using ge by (simp add: nth_append)
      also have "\<dots> = n_slots s + (nat i - ?n)"
        using ge k by (intro nth_upt) simp
      also have "\<dots> = n_slots s + ?k - 1" using ge k by simp
      finally show ?thesis .
    qed
    ultimately show ?thesis by (simp add: py_index_def Let_def)
  qed
  have "getitem l i s = (Inr (n_slots s + ?k - 1), ?s')"
    using assms idx by (simp add: getitem_def expand_def Let_def)
  then show ?thesis
    using len items
    by (simp add: expand_loop_n_slots expand_loop_last_idx expand_loop_files_done
        expand_loop_old_slots expand_loop_new_slots)
qed

theorem getitem_beyond_length_witness:
  "int (length (l_items (lists (snd (init_list world0)) 0))) \<le> 2
   \<and> (\<exists>r s'. getitem 0 2 (snd (init_list world0)) = (Inr r, s')
        \<and> n_slots s' = 3 \<and> l_items (lists s' 0) = [0, 1, 2]
        \<and> slots s' 0 = empty_slot 0 \<and> slots s' 1 = empty_slot 0 \<and> slots s' 2 = empty_slot 0
        \<and> l_last_idx (lists s' 0) = - 1 \<and> r = 2)"
proof -
  let ?w = "snd (init_list world0)"
  have w: "l_items (lists ?w 0) = []" "n_slots ?w = 0" "l_last_idx (lists ?w 0) = - 1"
    by (simp_all add: init_list_def world0_def Let_def)
  have h: "int (length (l_items (lists ?w 0))) \<le> 2" by (simp add: w)
  from getitem_beyond_length [OF h] obtain r s' where
    g: "getitem 0 2 ?w = (Inr r, s')"
    and n: "n_slots s' - n_slots ?w = nat (2 - int (length (l_items (lists ?w 0))) + 1)"
    and it: "l_items (lists s' 0) = l_items (lists ?w 0) @ [n_slots ?w ..< n_slots s']"
    and em: "\<forall>x \<in> set [n_slots ?w ..< n_slots s']. slots s' x = empty_slot 0"
    and li: "l_last_idx (lists s' 0) = l_last_idx (lists ?w 0)"
    and r: "r = n_slots s' - 1"
    by blast
  have n3: "n_slots s' = 3" using n by (simp add: w)
  have up: "[0 ..< (3::nat)] = [0, 1, 2]" by (simp add: upt_conv_Cons)
  show ?thesis
    using h g it em li r by (simp add: n3 w up)
qed

section \<open>Completion of the list\<close>

lemma done_loop_all: "done_loop s es = (\<forall>e \<in> set es. done_file s (snd e))"
  by (induction es) auto

text \<open>
  Claim C7. In every state, \<^verbatim>\<open>list.done()\<close> is true exactly when every entry of
  \<^verbatim>\<open>files_done\<close> evaluates to true. The loop stops at the first false entry: when the
  entries before \<open>e\<close> are all true and \<open>e\<close> is false, the answer is false and equals what
  the loop computes on the entries up to \<open>e\<close> alone, whatever follows \<open>e\<close>.
\<close>

theorem done_list_iff_all:
  "(done_list s l \<longleftrightarrow> (\<forall>e \<in> set (l_files_done (lists s l)). done_file s (snd e)))
   \<and> (l_files_done (lists s l) = xs @ e # ys \<and> (\<forall>x \<in> set xs. done_file s (snd x))
        \<and> \<not> done_file s (snd e)
      \<longrightarrow> \<not> done_list s l \<and> done_loop s (xs @ e # ys) = done_loop s (xs @ [e]))"
  by (auto simp: done_list_def done_loop_all)

theorem done_list_iff_all_witness:
  "l_files_done (lists w_done 0) = [(Some ''a'', 0)] @ (Some ''b'', 1) # [(Some ''c'', 2)]
   \<and> done_file w_done 0 \<and> \<not> done_file w_done 1 \<and> \<not> done_list w_done 0
   \<and> done_loop w_done ([(Some ''a'', 0)] @ (Some ''b'', 1) # [(Some ''c'', 2)])
       = done_loop w_done ([(Some ''a'', 0)] @ [(Some ''b'', 1)])"
proof -
  have fd: "l_files_done (lists w_done 0) = [(Some ''a'', 0)] @ (Some ''b'', 1) # [(Some ''c'', 2)]"
    by (simp add: w_done_def upd_slot_def upd_list_def world0_def dflt_list_def)
  have a: "done_file w_done 0"
    by (simp add: w_done_def upd_slot_def upd_list_def world0_def dflt_slot_def done_file_def)
  have b: "\<not> done_file w_done 1"
    by (simp add: w_done_def upd_slot_def upd_list_def world0_def dflt_data_def done_file_def)
  show ?thesis
    using done_list_iff_all [of w_done 0 "[(Some ''a'', 0)]" "(Some ''b'', 1)" "[(Some ''c'', 2)]"]
      fd a b by simp
qed

section \<open>The exception accessors\<close>

text \<open>
  Claim C9. The accessor \<^verbatim>\<open>exception()\<close> of a \<^verbatim>\<open>DynamicFile\<close> and of a
  \<^verbatim>\<open>DynamicFileList\<close> returns \<^verbatim>\<open>None\<close> in every state of the store. It does so in the
  state reached when the producing task of a list with two outputs has failed with
  \<^verbatim>\<open>E\<close>: there the future of the list holds \<^verbatim>\<open>E\<close> in \<^verbatim>\<open>_exception\<close>, and the accessors of
  the list and of its two slot wrappers return \<^verbatim>\<open>None\<close>.
\<close>

theorem exception_returns_None:
  "exception_file s r = None \<and> exception_list s l = None
   \<and> exception_of (l_state (lists (snd r_failed) 0)) = Some ''E''
   \<and> exception_list (snd r_failed) 0 = None
   \<and> exception_file (snd r_failed) 0 = None \<and> exception_file (snd r_failed) 1 = None"
proof -
  have "exception_of (l_state (lists (snd r_failed) 0)) = Some ''E''"
    by (simp add: scen_defs run_defs)
  then show ?thesis
    by (simp add: exception_file_def exception_list_def)
qed

section \<open>The scenarios, evaluated\<close>

text \<open>
  Claim C3. \<^verbatim>\<open>L.append(File('/d/x'))\<close> with no producing task attached, then
  \<^verbatim>\<open>L.set_parent(T)\<close>: \<^verbatim>\<open>convert_to_df\<close> calls \<^verbatim>\<open>DataFuture\<close> without its required
  argument \<^verbatim>\<open>dfk\<close>, so \<^verbatim>\<open>set_parent\<close> raises \<^verbatim>\<open>TypeError\<close>. The slot still holds the bare
  file, it is not a \<^verbatim>\<open>DataFuture\<close>, and its \<^verbatim>\<open>done()\<close> is true while \<^verbatim>\<open>T\<close> is pending.
\<close>

theorem promote_bare_file_fails:
  "fst r_set_parent = Inl TypeError
   \<and> f_file_obj (slots (snd r_set_parent) 0) = FFile file_x
   \<and> \<not> is_df (snd r_set_parent) 0
   \<and> t_state (tasks (snd r_set_parent) 0) = PENDING
   \<and> done_file (snd r_set_parent) 0"
  by (simp add: scen_defs run_defs)

text \<open>
  Claim C6. On a list that holds one bare file and has no parent, the first
  \<^verbatim>\<open>set_parent(T)\<close> attaches \<^verbatim>\<open>T\<close> and registers the list's callback on it, then raises
  \<^verbatim>\<open>TypeError\<close> while promoting the slot; the second call raises \<^verbatim>\<open>ValueError\<close> and changes
  nothing. No call of \<^verbatim>\<open>set_parent\<close> has succeeded on this list.
\<close>

theorem set_parent_never_succeeds:
  "l_items (lists w_appended 0) = [0] \<and> l_parent (lists w_appended 0) = None
   \<and> fst r_set_parent = Inl TypeError
   \<and> l_parent (lists (snd r_set_parent) 0) = Some (PTask 0)
   \<and> t_callbacks (tasks (snd r_set_parent) 0) = [TList 0]
   \<and> r_set_parent_again = (Inl ValueError, snd r_set_parent)"
  by (simp add: scen_defs run_defs)

text \<open>
  Claim C5. With a producing task attached, \<^verbatim>\<open>L[0] = File('/d/x')\<close> on the Empty slot 0
  raises \<^verbatim>\<open>TypeError\<close> (the same call of \<^verbatim>\<open>DataFuture\<close> without \<^verbatim>\<open>dfk\<close>): the slot stays
  Empty, no completion predicate is registered and the high-water mark stays at -1.
\<close>

theorem write_file_with_parent_fails:
  "l_parent (lists w_attached 0) = Some (PTask 0)
   \<and> fst r_write = Inl TypeError
   \<and> l_items (lists (snd r_write) 0) = [0]
   \<and> f_empty (slots (snd r_write) 0)
   \<and> l_files_done (lists (snd r_write) 0) = []
   \<and> l_last_idx (lists (snd r_write) 0) = - 1"
  by (simp add: scen_defs run_defs)

text \<open>Without a parent the first indexed write succeeds and the second raises
  \<^verbatim>\<open>ValueError\<close>, leaving the slot's content; the failed write has removed the entry of
  \<^verbatim>\<open>files_done\<close> under the slot's \<^verbatim>\<open>filename\<close>.\<close>

lemma write_once_without_parent:
  "fst r_write_free = Inr ()
   \<and> f_file_obj (slots (snd r_write_free) 0) = FFile file_x
   \<and> \<not> f_empty (slots (snd r_write_free) 0)
   \<and> l_files_done (lists (snd r_write_free) 0) = [(Some ''x'', 0), (Some ''/d/x'', 0)]
   \<and> l_last_idx (lists (snd r_write_free) 0) = 0
   \<and> fst r_write_free_again = Inl ValueError
   \<and> f_file_obj (slots (snd r_write_free_again) 0) = FFile file_x
   \<and> l_files_done (lists (snd r_write_free_again) 0) = [(Some ''x'', 0)]"
  by (simp add: scen_defs run_defs)

text \<open>
  Claim C1. A slot that wraps a \<^verbatim>\<open>DataFuture\<close>, on a list with the producing task attached:
  the first \<^verbatim>\<open>set_dataflow\<close> calls \<^verbatim>\<open>stage_out\<close> for the slot once and leaves its flag
  \<^verbatim>\<open>_staged_out\<close> false (nothing in the sources sets it); a second \<^verbatim>\<open>set_dataflow\<close>, or
  a direct \<^verbatim>\<open>stage_file(0)\<close>, calls \<^verbatim>\<open>stage_out\<close> for the same slot again.
\<close>

theorem staged_twice:
  "fst r_staged = Inr () \<and> fst r_staged_again = Inr ()
   \<and> stage_log w_data_appended = []
   \<and> stage_log (snd r_staged) = [(0, 0, file_x)]
   \<and> \<not> f_staged_out (slots (snd r_staged) 0)
   \<and> stage_log (snd r_staged_again) = [(0, 0, file_x), (0, 0, file_x)]
   \<and> stage_log (snd (stage_file 0 0 (snd r_staged))) = [(0, 0, file_x), (0, 0, file_x)]"
  by (simp add: scen_defs run_defs)


text \<open>
  Claim C8. After the read \<^verbatim>\<open>L[1]\<close> has left two placeholders, the view \<^verbatim>\<open>V = L[2:4]\<close>
  has both bounds set and non-negative (\<^verbatim>\<open>fixed_size\<close> is true). The growth loops of
  \<^verbatim>\<open>__getitem__\<close> go through \<^verbatim>\<open>append\<close>, which fills the placeholders before it extends
  the list, so the parent has three slots, not four, when the view is cut: the view is
  created with one slot. One \<^verbatim>\<open>append\<close> to the parent later its refresh holds two slots:
  the view has grown past its original length.
\<close>

theorem fixed_view_outgrows_creation:
  "l_items (lists w_read 0) = [0, 1] \<and> l_last_idx (lists w_read 0) = - 1
   \<and> r_late_view = (Inr 1, snd r_late_view)
   \<and> l_fixed_size (lists (snd r_late_view) 1)
   \<and> l_slice (lists (snd r_late_view) 1) = Some \<lparr>sl_start = Some 2, sl_stop = Some 4\<rparr>
   \<and> l_sub_callbacks (lists (snd r_late_view) 0) = [1]
   \<and> l_items (lists (snd r_late_view) 0) = [0, 1, 4]
   \<and> l_items (lists (snd r_late_view) 1) = [4]
   \<and> fst r_late_grown = Inr ()
   \<and> l_items (lists (snd r_late_grown) 0) = [0, 1, 4, 5]
   \<and> f_file_obj (slots (snd r_late_grown) 5) = FFile file_y
   \<and> l_items (lists (snd r_late_grown) 1) = [4, 5]
   \<and> length (l_items (lists (snd r_late_view) 1)) < length (l_items (lists (snd r_late_grown) 1))"
  by (simp add: scen_defs expand_loop_pos run_defs eval_nat_numeral)

text \<open>A view with a negative bound: \<^verbatim>\<open>L[0:-1]\<close> has both bounds set
  (\<^verbatim>\<open>fixed_size\<close> is true) and is empty when created over a list of one element; after
  one more \<^verbatim>\<open>append\<close> to the parent its refresh holds one element.\<close>

lemma negative_stop_view_grows:
  "r_view = (Inr 1, snd r_view)
   \<and> l_fixed_size (lists (snd r_view) 1)
   \<and> l_slice (lists (snd r_view) 1) = Some \<lparr>sl_start = Some 0, sl_stop = Some (- 1)\<rparr>
   \<and> l_items (lists (snd r_view) 1) = []
   \<and> fst r_grown = Inr ()
   \<and> l_items (lists (snd r_grown) 0) = [0, 1]
   \<and> l_items (lists (snd r_grown) 1) = [0]
   \<and> length (l_items (lists (snd r_view) 1)) < length (l_items (lists (snd r_grown) 1))"
  by (simp add: scen_defs run_defs)

section \<open>Failure of the producing task\<close>


























section \<open>Views\<close>

lemma obj_filepath_cong:
  "slots s' = slots s \<Longrightarrow> datas s' = datas s \<Longrightarrow> obj_filepath n s' fo = obj_filepath n s fo"
  by (induction n s fo rule: obj_filepath.induct) simp_all

lemma filename_file_cong:
  "slots s' = slots s \<Longrightarrow> datas s' = datas s \<Longrightarrow> filename_file s' r = filename_file s r"
proof -
  assume a: "slots s' = slots s" "datas s' = datas s"
  have h: "obj_filepath n s' fo = obj_filepath n s fo" for n fo
    using a by (rule obj_filepath_cong)
  show ?thesis
    by (cases "f_file_obj (slots s r)") (simp_all add: filename_file_def h a)
qed

lemma filename_file_upd_list: "filename_file (upd_list l f s) r = filename_file s r"
  by (rule filename_file_cong) (simp_all add: upd_list_def)

lemma upd_list_files_done_twice:
  "upd_list v (\<lambda>x. x\<lparr>l_files_done := fd\<rparr>) (upd_list v (\<lambda>x. x\<lparr>l_files_done := g (l_files_done x)\<rparr>) s)
   = upd_list v (\<lambda>x. x\<lparr>l_files_done := fd\<rparr>) s"
  by (simp add: upd_list_def)

lemma extend_items_dyn:
  "\<forall>r \<in> set xs. \<exists>n. filename_file s r = Inr n \<Longrightarrow>
   \<exists>fd. extend_items v (map ADyn xs) s = (Inr xs, upd_list v (\<lambda>x. x\<lparr>l_files_done := fd\<rparr>) s)"
proof (induction xs arbitrary: s)
  case Nil
  have "upd_list v (\<lambda>x. x\<lparr>l_files_done := l_files_done (lists s v)\<rparr>) s = s"
    by (simp add: upd_list_def)
  then show ?case by (auto simp: ret_def intro: exI [of _ "l_files_done (lists s v)"])
next
  case (Cons r xs)
  from Cons.prems obtain n where n: "filename_file s r = Inr n" by auto
  let ?s1 = "add_done_func v n r s"
  have "\<forall>r \<in> set xs. \<exists>n. filename_file ?s1 r = Inr n"
    using Cons.prems by (simp add: add_done_func_def filename_file_upd_list)
  from Cons.IH [OF this] obtain fd where
    fd: "extend_items v (map ADyn xs) ?s1 = (Inr xs, upd_list v (\<lambda>x. x\<lparr>l_files_done := fd\<rparr>) ?s1)"
    by blast
  have "extend_items v (map ADyn (r # xs)) s = (Inr (r # xs), upd_list v (\<lambda>x. x\<lparr>l_files_done := fd\<rparr>) ?s1)"
    using n fd by (simp add: bnd_def wrap_arg_def eval_def ret_def)
  moreover have "upd_list v (\<lambda>x. x\<lparr>l_files_done := fd\<rparr>) ?s1 = upd_list v (\<lambda>x. x\<lparr>l_files_done := fd\<rparr>) s"
    unfolding add_done_func_def by (rule upd_list_files_done_twice)
  ultimately show ?case by auto
qed

lemma stage_file_no_dataflow:
  "l_dataflow (lists s l) = None \<Longrightarrow> stage_file_with cc l idx s = (Inr (), s)"
  by (simp add: stage_file_with_def)

lemma each_advance:
  "l_dataflow (lists s l) = None \<Longrightarrow>
   each (\<lambda>i s'. (let s1 = upd_list l (\<lambda>x. x\<lparr>l_last_idx := l_last_idx x + 1\<rparr>) s'
                 in stage_file_with cc l (l_last_idx (lists s1 l)) s1)) is s
   = (Inr (), upd_list l (\<lambda>x. x\<lparr>l_last_idx := l_last_idx x + int (length is)\<rparr>) s)"
proof (induction "is" arbitrary: s)
  case Nil
  then show ?case by (simp add: ret_def upd_list_def)
next
  case (Cons i "is")
  let ?s1 = "upd_list l (\<lambda>x. x\<lparr>l_last_idx := l_last_idx x + 1\<rparr>) s"
  have df: "l_dataflow (lists ?s1 l) = None" using Cons.prems by (simp add: upd_list_def)
  show ?case
    using Cons.IH [OF df] df
    by (simp add: bnd_def Let_def stage_file_no_dataflow upd_list_def add.assoc)
qed

lemma in_callback_False_triv: "\<not> l_in_callback L \<Longrightarrow> L\<lparr>l_in_callback := False\<rparr> = L"
  by (cases L) simp

lemma call_callbacks_no_subs:
  "l_sub_callbacks (lists s l) = [] \<Longrightarrow> call_callbacks_with cbk l s = (Inr (), s)"
  by (cases "l_in_callback (lists s l)")
     (auto simp: call_callbacks_with_def bnd_def ret_def upd_list_def in_callback_False_triv)


lemma py_slice_open:
  "0 \<le> a \<Longrightarrow> py_slice xs \<lparr>sl_start = Some a, sl_stop = None\<rparr> = drop (nat a) xs"
  by (simp add: py_slice_def Let_def min_def)

lemma py_slice_fixed:
  "0 \<le> a \<Longrightarrow> 0 \<le> b \<Longrightarrow>
   py_slice xs \<lparr>sl_start = Some a, sl_stop = Some b\<rparr> = take (nat (b - a)) (drop (nat a) xs)"
  by (auto simp: py_slice_def Let_def min_def)

lemma callback_explicit:
  assumes par: "l_parent (lists s v) = Some (PList p)"
    and sl: "l_slice (lists s v) = Some key"
    and ne: "p \<noteq> v"
    and df: "l_dataflow (lists s v) = None"
    and fn: "\<forall>r \<in> set (py_slice (l_items (lists s p)) key). \<exists>n. filename_file s r = Inr n"
  shows "\<exists>fd. callback_with (call_callbacks_with cbk) v s =
           (Inr (), upd_list v (\<lambda>x. x\<lparr>l_sub_callbacks := [], l_files_done := fd,
                       l_items := py_slice (l_items (lists s p)) key,
                       l_last_idx := int (length (py_slice (l_items (lists s p)) key)) - 1\<rparr>) s)"
proof -
  let ?xs = "py_slice (l_items (lists s p)) key"
  let ?cc = "call_callbacks_with cbk"
  let ?s1 = "clear_list v s"
  have gu: "get_update ?s1 p key = ?xs"
    using ne by (simp add: get_update_def clear_list_def upd_list_def)
  have "\<forall>r \<in> set ?xs. \<exists>n. filename_file ?s1 r = Inr n"
    using fn by (simp add: clear_list_def filename_file_upd_list)
  from extend_items_dyn [OF this, of v] obtain fd where
    ei: "extend_items v (map ADyn ?xs) ?s1
         = (Inr ?xs, upd_list v (\<lambda>x. x\<lparr>l_files_done := fd\<rparr>) ?s1)"
    by blast
  let ?s2 = "upd_list v (\<lambda>x. x\<lparr>l_files_done := fd\<rparr>) ?s1"
  let ?s3 = "upd_list v (\<lambda>x. x\<lparr>l_items := l_items x @ ?xs\<rparr>) ?s2"
  have cond: "l_last_idx (lists ?s2 v) = int (length (l_items (lists ?s2 v))) - 1"
    by (simp add: clear_list_def upd_list_def)
  have df3: "l_dataflow (lists ?s3 v) = None"
    using df by (simp add: clear_list_def upd_list_def)
  let ?s4 = "upd_list v (\<lambda>x. x\<lparr>l_last_idx := l_last_idx x + int (length (py_range (int (length ?xs))))\<rparr>) ?s3"
  have adv: "each (\<lambda>i s'. (let s1 = upd_list v (\<lambda>x. x\<lparr>l_last_idx := l_last_idx x + 1\<rparr>) s'
                 in stage_file_with ?cc v (l_last_idx (lists s1 v)) s1)) (py_range (int (length ?xs))) ?s3
             = (Inr (), ?s4)"
    using df3 by (rule each_advance)
  have subs4: "l_sub_callbacks (lists ?s4 v) = []"
    by (simp add: clear_list_def upd_list_def)
  have cc4: "?cc v ?s4 = (Inr (), ?s4)"
    using subs4 by (rule call_callbacks_no_subs)
  have ext: "extend_with ?cc v (map ADyn ?xs) ?s1 = (Inr (), ?s4)"
    unfolding extend_with_def using ei cond adv cc4 by (simp add: bnd_def)
  have run: "callback_with ?cc v s = (Inr (), ?s4)"
    using par sl ext gu by (simp add: callback_with_def Let_def clear_list_def upd_list_def)
  have "?s4 = upd_list v (\<lambda>x. x\<lparr>l_sub_callbacks := [], l_files_done := fd, l_items := ?xs,
                       l_last_idx := int (length ?xs) - 1\<rparr>) s"
    by (simp add: clear_list_def upd_list_def py_range_def)
  with run show ?thesis by auto
qed

text \<open>A refresh of a view that has no staging collaborator, over slots whose file
  names can be read, returns and leaves the view with exactly the parent's current
  slice; the parent is not touched.\<close>

lemma view_refresh:
  assumes "l_parent (lists s v) = Some (PList p)"
    and "l_slice (lists s v) = Some key"
    and "p \<noteq> v"
    and "l_dataflow (lists s v) = None"
    and "\<forall>r \<in> set (py_slice (l_items (lists s p)) key). \<exists>n. filename_file s r = Inr n"
  shows "\<exists>s'. callback v s = (Inr (), s')
     \<and> l_items (lists s' v) = py_slice (l_items (lists s p)) key
     \<and> lists s' p = lists s p
     \<and> (\<forall>a. key = \<lparr>sl_start = Some a, sl_stop = None\<rparr> \<and> 0 \<le> a
            \<longrightarrow> l_items (lists s' v) = drop (nat a) (l_items (lists s p)))
     \<and> (\<forall>a b. key = \<lparr>sl_start = Some a, sl_stop = Some b\<rparr> \<and> 0 \<le> a \<and> 0 \<le> b
            \<longrightarrow> l_items (lists s' v) = take (nat (b - a)) (drop (nat a) (l_items (lists s p)))
                \<and> length (l_items (lists s' v)) \<le> nat (b - a))"
proof -
  from callback_explicit [OF assms, of "\<lambda>v. ret ()"] obtain fd where
    run: "callback v s = (Inr (), upd_list v (\<lambda>x. x\<lparr>l_sub_callbacks := [], l_files_done := fd,
                       l_items := py_slice (l_items (lists s p)) key,
                       l_last_idx := int (length (py_slice (l_items (lists s p)) key)) - 1\<rparr>) s)"
    unfolding callback_def by blast
  show ?thesis
    using assms(3) unfolding run
    by (auto simp: upd_list_def py_slice_open py_slice_fixed)
qed


lemma filename_file_simps:
  "f_file_obj (slots s r) = FNone \<Longrightarrow> filename_file s r = Inr None"
  "f_file_obj (slots s r) = FFile fl \<Longrightarrow> filename_file s r = Inr (Some (filepath fl))"
  "f_file_obj (slots s r) = FData d \<Longrightarrow>
     filename_file s r = Inr (Some (filepath (d_file_obj (datas s d))))"
  by (simp_all add: filename_file_def recursion_limit_def obj_filepath_pos)

lemma filename_file_plain:
  "\<forall>x. f_file_obj (slots s r) \<noteq> FDyn x \<Longrightarrow> \<exists>n. filename_file s r = Inr n"
  by (cases "f_file_obj (slots s r)") (simp_all add: filename_file_simps)

lemma set_py_slice: "set (py_slice xs key) \<subseteq> set xs"
  unfolding py_slice_def Let_def
  by (meson set_take_subset set_drop_subset subset_trans)

lemma wrap_FFile_no_dataflow:
  "l_dataflow (lists s l) = None \<Longrightarrow>
   wrap l (FFile fl) s = (n_slots s,
     (if l_state (lists s l) = PENDING
      then upd_list l (\<lambda>x. x\<lparr>l_callbacks := l_callbacks x @ [LSlot (n_slots s)]\<rparr>)
      else id)
     (s\<lparr>slots := (slots s)(n_slots s :=
            \<lparr>f_state = PENDING, f_parent = l, f_file_obj = FFile fl, f_empty = False,
             f_staged_out = False\<rparr>),
        n_slots := Suc (n_slots s)\<rparr>))"
  by (simp add: wrap_def Let_def add_done_callback_list_def invoke_list_cb_def
      parent_callback_file_def exception_list_def upd_list_def)

lemma append_file_plain:
  assumes "l_parent (lists s p) = None" and "l_dataflow (lists s p) = None"
    and "l_last_idx (lists s p) = int (length (l_items (lists s p))) - 1"
  shows "\<exists>s4. append_with cc p (AFile fl) s = cc p s4
     \<and> slots s4 = (slots s)(n_slots s :=
            \<lparr>f_state = PENDING, f_parent = p, f_file_obj = FFile fl, f_empty = False,
             f_staged_out = False\<rparr>)
     \<and> datas s4 = datas s
     \<and> (\<forall>l. l \<noteq> p \<longrightarrow> lists s4 l = lists s l)
     \<and> l_items (lists s4 p) = l_items (lists s p) @ [n_slots s]
     \<and> l_last_idx (lists s4 p) = l_last_idx (lists s p) + 1
     \<and> l_files_done (lists s4 p)
         = AList.update (Some (filepath fl)) (n_slots s) (l_files_done (lists s p))
     \<and> l_sub_callbacks (lists s4 p) = l_sub_callbacks (lists s p)
     \<and> l_in_callback (lists s4 p) = l_in_callback (lists s p)"
proof -
  define n where "n = n_slots s"
  define s1 where "s1 = snd (wrap p (FFile fl) s)"
  define s2 where "s2 = upd_list p (\<lambda>x. x\<lparr>l_items := l_items x @ [n]\<rparr>) s1"
  define s4 where "s4 = upd_list p (\<lambda>x. x\<lparr>l_last_idx := l_last_idx x + 1\<rparr>)
                          (add_done_func p (Some (filepath fl)) n s2)"
  have w: "wrap p (FFile fl) s = (n, s1)"
    using assms(2) by (simp add: wrap_FFile_no_dataflow s1_def n_def)
  have s1: "s1 = (if l_state (lists s p) = PENDING
      then upd_list p (\<lambda>x. x\<lparr>l_callbacks := l_callbacks x @ [LSlot n]\<rparr>)
      else id)
     (s\<lparr>slots := (slots s)(n :=
            \<lparr>f_state = PENDING, f_parent = p, f_file_obj = FFile fl, f_empty = False,
             f_staged_out = False\<rparr>),
        n_slots := Suc n\<rparr>)"
    using assms(2) by (simp add: wrap_FFile_no_dataflow s1_def n_def)
  have p1: "l_last_idx (lists s1 p) = int (length (l_items (lists s1 p))) - 1"
    using assms(3) by (simp add: s1 upd_list_def)
  have p2: "l_items (lists s2 p) = l_items (lists s p) @ [n]"
    "l_last_idx (lists s2 p) = l_last_idx (lists s p)"
    by (simp_all add: s2_def s1 upd_list_def)
  have idx: "py_index (l_items (lists s p) @ [n]) (l_last_idx (lists s p) + 1) = Inr n"
    using assms(3) by (simp add: py_index_def Let_def)
  have fn: "filename_file s2 n = Inr (Some (filepath fl))"
    by (intro filename_file_simps(2)) (simp add: s2_def s1 upd_list_def)
  have st: "stage_file_with cc p i s4 = (Inr (), s4)" for i
    using assms(2)
    by (intro stage_file_no_dataflow) (simp add: s4_def s2_def s1 upd_list_def add_done_func_def)
  have step1: "wrap_arg p (AFile fl) s = (Inr n, s1)"
    using assms(1) w by (simp add: wrap_arg_def)
  have run: "append_with cc p (AFile fl) s = cc p s4"
    unfolding append_with_def
    by (simp add: bnd_def step1 p1 s2_def [symmetric] super_getitem_def eval_def p2 idx fn
        Let_def s4_def [symmetric] st)
  show ?thesis
    apply (rule exI [of _ s4])
    using run
    by (simp add: s4_def s2_def s1 n_def upd_list_def add_done_func_def)
qed


text \<open>An \<^verbatim>\<open>append\<close> of a file to a parent without producing task, staging collaborator
  or unfilled placeholder, observed by one view: the call returns, and the refresh it
  triggers leaves the view with the slice of the grown parent.\<close>

lemma append_reaches_view:
  assumes "l_parent (lists s p) = None" and "l_dataflow (lists s p) = None"
    and "l_last_idx (lists s p) = int (length (l_items (lists s p))) - 1"
    and "\<not> l_in_callback (lists s p)"
    and "l_sub_callbacks (lists s p) = [v]"
    and "l_parent (lists s v) = Some (PList p)"
    and "l_slice (lists s v) = Some key"
    and "p \<noteq> v"
    and "l_dataflow (lists s v) = None"
    and "\<forall>r \<in> set (l_items (lists s p)). r < n_slots s \<and> (\<forall>x. f_file_obj (slots s r) \<noteq> FDyn x)"
  shows "\<exists>s'. append_list p (AFile fl) s = (Inr (), s')
     \<and> l_items (lists s' p) = l_items (lists s p) @ [n_slots s]
     \<and> f_file_obj (slots s' (n_slots s)) = FFile fl
     \<and> l_items (lists s' v) = py_slice (l_items (lists s p) @ [n_slots s]) key
     \<and> (\<forall>a. key = \<lparr>sl_start = Some a, sl_stop = None\<rparr> \<and> 0 \<le> a
              \<and> a \<le> int (length (l_items (lists s p)))
            \<longrightarrow> n_slots s \<in> set (l_items (lists s' v)))
     \<and> (\<forall>a b. key = \<lparr>sl_start = Some a, sl_stop = Some b\<rparr> \<and> 0 \<le> a \<and> 0 \<le> b
            \<longrightarrow> length (l_items (lists s' v)) \<le> nat (b - a))"
proof -
  define n where "n = n_slots s"
  define new where "new = \<lparr>f_state = PENDING, f_parent = p, f_file_obj = FFile fl,
                            f_empty = False, f_staged_out = False\<rparr>"
  from append_file_plain [OF assms(1-3), of call_callbacks fl] obtain s4 where
    run4: "append_list p (AFile fl) s = call_callbacks p s4"
    and sl4: "slots s4 = (slots s)(n := new)"
    and da4: "datas s4 = datas s"
    and ot4: "\<forall>l. l \<noteq> p \<longrightarrow> lists s4 l = lists s l"
    and it4: "l_items (lists s4 p) = l_items (lists s p) @ [n]"
    and su4: "l_sub_callbacks (lists s4 p) = l_sub_callbacks (lists s p)"
    and ic4: "l_in_callback (lists s4 p) = l_in_callback (lists s p)"
    unfolding append_list_def n_def new_def by blast
  define s5 where "s5 = upd_list p (\<lambda>x. x\<lparr>l_in_callback := True\<rparr>) s4"
  let ?xs = "py_slice (l_items (lists s p) @ [n]) key"
  have v5: "lists s5 v = lists s v"
    using assms(8) ot4 by (simp add: s5_def upd_list_def)
  have it5: "l_items (lists s5 p) = l_items (lists s p) @ [n]"
    by (simp add: s5_def upd_list_def it4)
  have fn5: "\<exists>m. filename_file s5 r = Inr m" if "r \<in> set ?xs" for r
  proof -
    have "r \<in> set (l_items (lists s p)) \<or> r = n"
      using that set_py_slice [of "l_items (lists s p) @ [n]" key] by auto
    then show ?thesis
    proof
      assume r: "r \<in> set (l_items (lists s p))"
      then have "r \<noteq> n" using assms(10) by (auto simp: n_def)
      then have "slots s5 r = slots s r" by (simp add: s5_def upd_list_def sl4)
      then show ?thesis
        using assms(10) r by (intro filename_file_plain) simp
    next
      assume "r = n"
      then have "f_file_obj (slots s5 r) = FFile fl"
        by (simp add: s5_def upd_list_def sl4 new_def)
      then show ?thesis by (simp add: filename_file_simps)
    qed
  qed
  have "\<exists>fd. callback_with (call_callbacks_with (\<lambda>v. ret ())) v s5 =
           (Inr (), upd_list v (\<lambda>x. x\<lparr>l_sub_callbacks := [], l_files_done := fd,
                       l_items := py_slice (l_items (lists s5 p)) key,
                       l_last_idx := int (length (py_slice (l_items (lists s5 p)) key)) - 1\<rparr>) s5)"
    using assms(6,7,8,9) fn5 by (intro callback_explicit) (simp_all add: v5 it5)
  then obtain fd where
    cb: "callback v s5 = (Inr (), upd_list v (\<lambda>x. x\<lparr>l_sub_callbacks := [], l_files_done := fd,
                       l_items := ?xs, l_last_idx := int (length ?xs) - 1\<rparr>) s5)"
    unfolding callback_def it5 by blast
  define s6 where "s6 = upd_list v (\<lambda>x. x\<lparr>l_sub_callbacks := [], l_files_done := fd,
                       l_items := ?xs, l_last_idx := int (length ?xs) - 1\<rparr>) s5"
  define s7 where "s7 = upd_list p (\<lambda>x. x\<lparr>l_in_callback := False\<rparr>) s6"
  have run: "call_callbacks p s4 = (Inr (), s7)"
    using assms(4,5) cb
    by (simp add: call_callbacks_def call_callbacks_with_def ic4 su4 bnd_def ret_def
        s5_def [symmetric] s6_def [symmetric] s7_def)
  have itv: "l_items (lists s7 v) = ?xs"
    using assms(8) by (simp add: s7_def s6_def upd_list_def)
  have itp: "l_items (lists s7 p) = l_items (lists s p) @ [n]"
    using assms(8) by (simp add: s7_def s6_def upd_list_def it5)
  have new7: "f_file_obj (slots s7 n) = FFile fl"
    by (simp add: s7_def s6_def s5_def upd_list_def sl4 new_def)
  have opn: "n \<in> set ?xs"
    if "key = \<lparr>sl_start = Some a, sl_stop = None\<rparr>" "0 \<le> a" "a \<le> int (length (l_items (lists s p)))"
    for a
    using that by (simp add: py_slice_open)
  have fxd: "length ?xs \<le> nat (b - a)"
    if "key = \<lparr>sl_start = Some a, sl_stop = Some b\<rparr>" "0 \<le> a" "0 \<le> b" for a b
    unfolding that(1) py_slice_fixed [OF that(2) that(3)]
    by (metis length_take min.cobounded2)
  show ?thesis
    unfolding run4 run n_def [symmetric]
    using itv itp new7 opn fxd by auto
qed

section \<open>Removal\<close>

lemma bnd_frame:
  assumes "\<And>s. g (snd (m s)) = g s" and "\<And>x s. g (snd (f x s)) = g s"
  shows "g (snd (bnd m f s)) = g s"
proof (cases "m s")
  case (Pair res s')
  then have "g s' = g s" using assms(1) [of s] by simp
  then show ?thesis
    using Pair assms(2) by (cases res) (simp_all add: bnd_def)
qed

lemma each_frame:
  assumes "\<And>x s. g (snd (f x s)) = g s"
  shows "g (snd (each f xs s)) = g s"
proof (induction xs arbitrary: s)
  case Nil
  then show ?case by (simp add: ret_def)
next
  case (Cons x xs)
  show ?case
    unfolding each.simps
    by (rule bnd_frame) (simp_all add: assms Cons.IH)
qed

lemma expand_loop_other: "l \<noteq> v \<Longrightarrow> lists (expand_loop n v s) l = lists s l"
  by (induction n arbitrary: s) (simp_all add: wrap_FNone upd_list_def)

lemma getitem_frame: "l \<noteq> v \<Longrightarrow> lists (snd (getitem v idx s)) l = lists s l"
  by (simp add: getitem_def Let_def expand_def expand_loop_other)

lemma stage_out_frame: "lists (snd (stage_out v r k p s)) = lists s"
  by (auto simp: stage_out_def Let_def new_task_def upd_data_def
      split: fobj.splits option.splits pref.splits)

lemma set_parent_outputs_frame:
  "shape (lists (snd (set_parent_outputs v s)) l) = shape (lists s l)"
  by (auto simp: set_parent_outputs_def upd_task_def upd_list_def shape_def
      split: option.splits pref.splits)

lemma each_ret: "each (\<lambda>v. ret ()) xs = ret ()"
  by (induction xs) (simp_all add: bnd_def ret_def)

lemma call_callbacks_stub_frame:
  "l \<noteq> v \<Longrightarrow> lists (snd (call_callbacks_with (\<lambda>v. ret ()) v s)) l = lists s l"
  unfolding call_callbacks_with_def each_ret
  by (simp add: bnd_def ret_def upd_list_def)

lemma stage_file_frame:
  assumes "l \<noteq> v" and cc: "\<And>s. shape (lists (snd (cc v s)) l) = shape (lists s l)"
  shows "shape (lists (snd (stage_file_with cc v idx s)) l) = shape (lists s l)"
proof (cases "l_dataflow (lists s v)")
  case None
  then show ?thesis by (simp add: stage_file_with_def)
next
  case (Some k)
  have tail: "shape (lists (snd (bnd m (\<lambda>_. bnd (set_parent_outputs v) (\<lambda>_. cc v)) s1)) l)
              = shape (lists s1 l)"
    if "\<And>s. shape (lists (snd (m s)) l) = shape (lists s l)" for m :: "unit io" and s1
    by (rule bnd_frame [where g = "\<lambda>s. shape (lists s l)"], rule that,
        rule bnd_frame [where g = "\<lambda>s. shape (lists s l)"])
       (simp_all add: set_parent_outputs_frame cc)
  have body: "shape (lists (snd ((\<lambda>out_file s1.
               if f_empty (slots s1 out_file) \<or> f_staged_out (slots s1 out_file)
               then (Inr (), s1)
               else (case l_parent (lists s1 v) of
                       None \<Rightarrow> (Inr (), s1)
                     | Some p \<Rightarrow>
                         if \<not> is_df s1 out_file then (Inr (), s1)
                         else bnd (if l_staging_inhibited (lists s1 v) then ret ()
                                   else stage_out v out_file k p)
                                (\<lambda>_. bnd (set_parent_outputs v) (\<lambda>_. cc v)) s1)) r s1)) l)
             = shape (lists s1 l)" for r s1
    by (auto simp: tail ret_def stage_out_frame split: option.splits)
  show ?thesis
    unfolding stage_file_with_def Some option.case
    by (rule bnd_frame [where g = "\<lambda>s. shape (lists s l)"])
       (simp_all add: getitem_frame assms(1) body)
qed


lemma each_frame_mem:
  assumes "\<And>x s. x \<in> set xs \<Longrightarrow> g (snd (f x s)) = g s"
  shows "g (snd (each f xs s)) = g s"
  using assms
proof (induction xs arbitrary: s)
  case Nil
  then show ?case by (simp add: ret_def)
next
  case (Cons x xs)
  show ?case
    unfolding each.simps
    by (rule bnd_frame) (simp_all add: Cons)
qed

lemma extend_items_dyn_state:
  "\<exists>fd. snd (extend_items v (map ADyn xs) s) = upd_list v (\<lambda>x. x\<lparr>l_files_done := fd\<rparr>) s
        \<and> (fst (extend_items v (map ADyn xs) s) = Inr xs
            \<or> (\<exists>e. fst (extend_items v (map ADyn xs) s) = Inl e))"
proof (induction xs arbitrary: s)
  case Nil
  have "upd_list v (\<lambda>x. x\<lparr>l_files_done := l_files_done (lists s v)\<rparr>) s = s"
    by (simp add: upd_list_def)
  then show ?case by (auto simp: ret_def intro: exI [of _ "l_files_done (lists s v)"])
next
  case (Cons r xs)
  show ?case
  proof (cases "filename_file s r")
    case (Inl e)
    have "upd_list v (\<lambda>x. x\<lparr>l_files_done := l_files_done (lists s v)\<rparr>) s = s"
      by (simp add: upd_list_def)
    then show ?thesis
      using Inl
      by (auto simp: bnd_def wrap_arg_def eval_def intro: exI [of _ "l_files_done (lists s v)"])
  next
    case (Inr n)
    let ?s1 = "add_done_func v n r s"
    from Cons.IH [of ?s1] obtain fd where
      st: "snd (extend_items v (map ADyn xs) ?s1) = upd_list v (\<lambda>x. x\<lparr>l_files_done := fd\<rparr>) ?s1"
      and rs: "fst (extend_items v (map ADyn xs) ?s1) = Inr xs
            \<or> (\<exists>e. fst (extend_items v (map ADyn xs) ?s1) = Inl e)"
      by blast
    have same: "upd_list v (\<lambda>x. x\<lparr>l_files_done := fd\<rparr>) ?s1 = upd_list v (\<lambda>x. x\<lparr>l_files_done := fd\<rparr>) s"
      unfolding add_done_func_def by (rule upd_list_files_done_twice)
    obtain res s2 where e: "extend_items v (map ADyn xs) ?s1 = (res, s2)"
      by (cases "extend_items v (map ADyn xs) ?s1")
    have step: "extend_items v (map ADyn (r # xs)) s =
         (case res of Inl e \<Rightarrow> (Inl e, s2) | Inr objs \<Rightarrow> (Inr (r # objs), s2))"
      using Inr e by (simp add: bnd_def wrap_arg_def eval_def ret_def split: sum.splits)
    show ?thesis
      using st rs same unfolding step e
      by (cases res) (auto intro: exI [of _ fd])
  qed
qed

lemma callback_frame:
  assumes "l \<noteq> v"
  shows "shape (lists (snd (callback v s)) l) = shape (lists s l)"
proof -
  let ?g = "\<lambda>s. shape (lists s l)"
  let ?cc = "call_callbacks_with (\<lambda>v. ret ())"
  let ?s1 = "clear_list v s"
  have g1: "?g ?s1 = ?g s" using assms by (simp add: clear_list_def upd_list_def)
  have cc: "?g (snd (?cc v s)) = ?g s" for s
    using assms by (simp add: call_callbacks_stub_frame)
  have ext: "?g (snd (extend_with ?cc v (map ADyn xs) ?s1)) = ?g ?s1" for xs
  proof -
    from extend_items_dyn_state [of v xs ?s1] obtain fd where
      st: "snd (extend_items v (map ADyn xs) ?s1) = upd_list v (\<lambda>x. x\<lparr>l_files_done := fd\<rparr>) ?s1"
      and rs: "fst (extend_items v (map ADyn xs) ?s1) = Inr xs
            \<or> (\<exists>e. fst (extend_items v (map ADyn xs) ?s1) = Inl e)"
      by blast
    let ?s2 = "upd_list v (\<lambda>x. x\<lparr>l_files_done := fd\<rparr>) ?s1"
    have g2: "?g ?s2 = ?g ?s1" using assms by (simp add: upd_list_def)
    from rs show ?thesis
    proof
      assume "fst (extend_items v (map ADyn xs) ?s1) = Inr xs"
      with st have ei: "extend_items v (map ADyn xs) ?s1 = (Inr xs, ?s2)"
        by (metis prod.collapse)
      let ?s3 = "upd_list v (\<lambda>x. x\<lparr>l_items := l_items x @ xs\<rparr>) ?s2"
      have cond: "l_last_idx (lists ?s2 v) = int (length (l_items (lists ?s2 v))) - 1"
        by (simp add: clear_list_def upd_list_def)
      have g3: "?g ?s3 = ?g ?s1" using assms by (simp add: upd_list_def)
      have loop: "?g (snd (bnd (each (\<lambda>i s'.
                      (let s1 = upd_list v (\<lambda>x. x\<lparr>l_last_idx := l_last_idx x + 1\<rparr>) s'
                       in stage_file_with ?cc v (l_last_idx (lists s1 v)) s1))
                      (py_range (int (length xs))))
                 (\<lambda>_. ?cc v) ?s3)) = ?g ?s3"
      proof (rule bnd_frame [where g = ?g], rule each_frame [where g = ?g])
        fix i s'
        have "?g (snd (stage_file_with ?cc v j (upd_list v f s'))) = ?g s'" for j f
          using stage_file_frame [OF assms, of ?cc j "upd_list v f s'"] assms cc
          by (simp add: upd_list_def)
        then show "?g (snd (let s1 = upd_list v (\<lambda>x. x\<lparr>l_last_idx := l_last_idx x + 1\<rparr>) s'
                       in stage_file_with ?cc v (l_last_idx (lists s1 v)) s1)) = ?g s'"
          by (simp add: Let_def)
      next
        fix x :: unit and s
        show "?g (snd (?cc v s)) = ?g s" by (rule cc)
      qed
      show ?thesis
        unfolding extend_with_def using ei cond loop g3
        by (simp add: bnd_def)
    next
      assume "\<exists>e. fst (extend_items v (map ADyn xs) ?s1) = Inl e"
      then obtain e where "fst (extend_items v (map ADyn xs) ?s1) = Inl e" by blast
      with st have "extend_items v (map ADyn xs) ?s1 = (Inl e, ?s2)"
        by (metis prod.collapse)
      then show ?thesis
        unfolding extend_with_def using g2 by (simp add: bnd_def)
    qed
  qed
  show ?thesis
    unfolding callback_def callback_with_def Let_def
    using g1 ext by (auto split: option.splits pref.splits)
qed

lemma call_callbacks_frame:
  assumes "l \<notin> set (l_sub_callbacks (lists s l))"
  shows "l_items (lists (snd (call_callbacks l s)) l) = l_items (lists s l)
       \<and> l_last_idx (lists (snd (call_callbacks l s)) l) = l_last_idx (lists s l)
       \<and> l_files_done (lists (snd (call_callbacks l s)) l) = l_files_done (lists s l)"
proof (cases "l_in_callback (lists s l)")
  case True
  then show ?thesis by (simp add: call_callbacks_def call_callbacks_with_def)
next
  case False
  let ?s5 = "upd_list l (\<lambda>x. x\<lparr>l_in_callback := True\<rparr>) s"
  let ?vs = "l_sub_callbacks (lists s l)"
  obtain res s6 where e: "each callback ?vs ?s5 = (res, s6)"
    by (cases "each callback ?vs ?s5")
  have "shape (lists (snd (each callback ?vs ?s5)) l) = shape (lists ?s5 l)"
  proof (rule each_frame_mem [where g = "\<lambda>s. shape (lists s l)"])
    fix x s
    assume "x \<in> set ?vs"
    then have "l \<noteq> x" using assms by auto
    then show "shape (lists (snd (callback x s)) l) = shape (lists s l)"
      by (rule callback_frame)
  qed
  then have sh: "shape (lists s6 l) = shape ((lists s l)\<lparr>l_in_callback := True\<rparr>)"
    unfolding e by (simp add: upd_list_def)
  have pr: "l_items (lists s6 l) = l_items (lists s l)"
    "l_last_idx (lists s6 l) = l_last_idx (lists s l)"
    "l_files_done (lists s6 l) = l_files_done (lists s l)"
    using arg_cong [OF sh, of l_items] arg_cong [OF sh, of l_last_idx]
      arg_cong [OF sh, of l_files_done]
    by (simp_all add: shape_def)
  have run: "call_callbacks l s =
      (case res of Inl e \<Rightarrow> (Inl e, s6)
       | Inr u \<Rightarrow> (Inr (), upd_list l (\<lambda>x. x\<lparr>l_in_callback := False\<rparr>) s6))"
    using False e
    by (simp add: call_callbacks_def call_callbacks_with_def bnd_def upd_list_def split: sum.splits)
  show ?thesis
    unfolding run using pr by (cases res) (simp_all add: upd_list_def)
qed

text \<open>
  Claim C10. \<^verbatim>\<open>remove(value)\<close> where \<^verbatim>\<open>value.filename\<close> can be read and is a key of
  \<^verbatim>\<open>files_done\<close>. If \<^verbatim>\<open>value\<close> is not an element of the list, the call raises \<^verbatim>\<open>ValueError\<close>
  and the entry of \<^verbatim>\<open>files_done\<close> is gone all the same, with the slots and the high-water
  mark as before. If it is an element (and the list is not its own observer), the first
  occurrence is removed, the entry is deleted and the high-water mark is one less than
  before, whatever the observers do afterwards; with no observer the call returns.
\<close>

theorem remove_not_atomic:
  assumes "filename_arg s v = Inr name"
    and "name \<in> fst ` set (l_files_done (lists s l))"
  shows "((\<forall>r. v = ADyn r \<longrightarrow> r \<notin> set (l_items (lists s l))) \<longrightarrow>
            (\<exists>s'. remove_list l v s = (Inl ValueError, s')
               \<and> l_files_done (lists s' l) = AList.delete name (l_files_done (lists s l))
               \<and> name \<notin> fst ` set (l_files_done (lists s' l))
               \<and> l_items (lists s' l) = l_items (lists s l)
               \<and> l_last_idx (lists s' l) = l_last_idx (lists s l)))
       \<and> (\<forall>r. v = ADyn r \<and> r \<in> set (l_items (lists s l))
                \<and> l \<notin> set (l_sub_callbacks (lists s l)) \<longrightarrow>
            l_last_idx (lists (snd (remove_list l v s)) l) = l_last_idx (lists s l) - 1
            \<and> l_items (lists (snd (remove_list l v s)) l) = remove1 r (l_items (lists s l))
            \<and> l_files_done (lists (snd (remove_list l v s)) l)
                = AList.delete name (l_files_done (lists s l))
            \<and> (l_sub_callbacks (lists s l) = [] \<longrightarrow> fst (remove_list l v s) = Inr ()))"
proof (intro conjI impI allI)
  assume "\<forall>r. v = ADyn r \<longrightarrow> r \<notin> set (l_items (lists s l))"
  then show "\<exists>s'. remove_list l v s = (Inl ValueError, s')
               \<and> l_files_done (lists s' l) = AList.delete name (l_files_done (lists s l))
               \<and> name \<notin> fst ` set (l_files_done (lists s' l))
               \<and> l_items (lists s' l) = l_items (lists s l)
               \<and> l_last_idx (lists s' l) = l_last_idx (lists s l)"
    using assms
    by (cases v)
       (auto simp: remove_list_def remove_with_def bnd_def eval_def del_key_def upd_list_def
         AList.delete_eq)
next
  fix r
  assume a: "v = ADyn r \<and> r \<in> set (l_items (lists s l))
                \<and> l \<notin> set (l_sub_callbacks (lists s l))"
  let ?s2 = "upd_list l (\<lambda>x. x\<lparr>l_items := remove1 r (l_items x),
                                l_last_idx := l_last_idx x - 1\<rparr>)
               (upd_list l (\<lambda>x. x\<lparr>l_files_done := AList.delete name (l_files_done x)\<rparr>) s)"
  have run: "remove_list l v s = call_callbacks l ?s2"
    using assms a
    by (simp add: remove_list_def remove_with_def bnd_def eval_def del_key_def upd_list_def)
  have "l \<notin> set (l_sub_callbacks (lists ?s2 l))"
    using a by (simp add: upd_list_def)
  note fr = call_callbacks_frame [OF this]
  show "l_last_idx (lists (snd (remove_list l v s)) l) = l_last_idx (lists s l) - 1"
    unfolding run using fr by (simp add: upd_list_def)
  show "l_items (lists (snd (remove_list l v s)) l) = remove1 r (l_items (lists s l))"
    unfolding run using fr by (simp add: upd_list_def)
  show "l_files_done (lists (snd (remove_list l v s)) l)
                = AList.delete name (l_files_done (lists s l))"
    unfolding run using fr by (simp add: upd_list_def)
  assume "l_sub_callbacks (lists s l) = []"
  then have "l_sub_callbacks (lists ?s2 l) = []" by (simp add: upd_list_def)
  then show "fst (remove_list l v s) = Inr ()"
    unfolding run call_callbacks_def by (simp add: call_callbacks_no_subs)
qed

theorem remove_not_atomic_witness:
  "filename_arg w_wrapped (ADyn 1) = Inr (Some ''/d/x'')
   \<and> filename_arg w_wrapped (ADyn 0) = Inr (Some ''/d/x'')
   \<and> Some ''/d/x'' \<in> fst ` set (l_files_done (lists w_wrapped 0))
   \<and> l_items (lists w_wrapped 0) = [0] \<and> l_last_idx (lists w_wrapped 0) = 0
   \<and> l_sub_callbacks (lists w_wrapped 0) = []
   \<and> (\<exists>s'. remove_list 0 (ADyn 1) w_wrapped = (Inl ValueError, s')
         \<and> l_files_done (lists s' 0) = [] \<and> l_items (lists s' 0) = [0]
         \<and> l_last_idx (lists s' 0) = 0)
   \<and> fst (remove_list 0 (ADyn 0) w_wrapped) = Inr ()
   \<and> l_last_idx (lists (snd (remove_list 0 (ADyn 0) w_wrapped)) 0) = - 1
   \<and> l_items (lists (snd (remove_list 0 (ADyn 0) w_wrapped)) 0) = []"
proof -
  have f: "filename_arg w_wrapped (ADyn 1) = Inr (Some ''/d/x'')"
    "filename_arg w_wrapped (ADyn 0) = Inr (Some ''/d/x'')"
    by (simp_all add: scen_defs run_defs)
  have k: "Some ''/d/x'' \<in> fst ` set (l_files_done (lists w_wrapped 0))"
    by (simp add: scen_defs run_defs)
  have l: "l_items (lists w_wrapped 0) = [0]" "l_last_idx (lists w_wrapped 0) = 0"
    "l_sub_callbacks (lists w_wrapped 0) = []"
    "l_files_done (lists w_wrapped 0) = [(Some ''/d/x'', 0)]"
    by (simp_all add: scen_defs run_defs)
  from remove_not_atomic [OF f(1) k]
  have 1: "\<exists>s'. remove_list 0 (ADyn 1) w_wrapped = (Inl ValueError, s')
         \<and> l_files_done (lists s' 0) = [] \<and> l_items (lists s' 0) = [0]
         \<and> l_last_idx (lists s' 0) = 0"
    by (auto simp: l)
  from remove_not_atomic [OF f(2) k]
  have 2: "fst (remove_list 0 (ADyn 0) w_wrapped) = Inr ()
     \<and> l_last_idx (lists (snd (remove_list 0 (ADyn 0) w_wrapped)) 0) = - 1
     \<and> l_items (lists (snd (remove_list 0 (ADyn 0) w_wrapped)) 0) = []"
    by (simp add: l)
  show ?thesis using f k l(1-3) 1 2 by blast
qed

section \<open>The nested dispatch of a refresh\<close>

lemma stage_file_frame_gen:
  assumes gi: "\<And>idx s. g (snd (getitem v idx s)) = g s"
    and so: "\<And>r k p s. g (snd (stage_out v r k p s)) = g s"
    and po: "\<And>s. g (snd (set_parent_outputs v s)) = g s"
    and cc: "\<And>s. g (snd (cc v s)) = g s"
  shows "g (snd (stage_file_with cc v idx s)) = g s"
proof (cases "l_dataflow (lists s v)")
  case None
  then show ?thesis by (simp add: stage_file_with_def)
next
  case (Some k)
  have tail: "g (snd (bnd m (\<lambda>_. bnd (set_parent_outputs v) (\<lambda>_. cc v)) s1)) = g s1"
    if "\<And>s. g (snd (m s)) = g s" for m :: "unit io" and s1
    by (rule bnd_frame, rule that, rule bnd_frame) (simp_all add: po cc)
  have body: "g (snd ((\<lambda>out_file s1.
               if f_empty (slots s1 out_file) \<or> f_staged_out (slots s1 out_file)
               then (Inr (), s1)
               else (case l_parent (lists s1 v) of
                       None \<Rightarrow> (Inr (), s1)
                     | Some p \<Rightarrow>
                         if \<not> is_df s1 out_file then (Inr (), s1)
                         else bnd (if l_staging_inhibited (lists s1 v) then ret ()
                                   else stage_out v out_file k p)
                                (\<lambda>_. bnd (set_parent_outputs v) (\<lambda>_. cc v)) s1)) r s1))
             = g s1" for r s1
    by (auto simp: tail ret_def so split: option.splits)
  show ?thesis
    unfolding stage_file_with_def Some option.case
    by (rule bnd_frame) (simp_all add: gi body)
qed

lemma expand_loop_subs:
  "l_sub_callbacks (lists (expand_loop n l s) l') = l_sub_callbacks (lists s l')"
  by (induction n arbitrary: s) (simp_all add: wrap_FNone upd_list_def)

lemma getitem_subs:
  "l_sub_callbacks (lists (snd (getitem v idx s)) l) = l_sub_callbacks (lists s l)"
  by (simp add: getitem_def Let_def expand_def expand_loop_subs)

lemma set_parent_outputs_subs:
  "l_sub_callbacks (lists (snd (set_parent_outputs v s)) l) = l_sub_callbacks (lists s l)"
  using arg_cong [OF set_parent_outputs_frame [of v s l], of l_sub_callbacks]
  by (simp add: shape_def)

lemma stage_file_skip_subs:
  "l_sub_callbacks (lists (snd (stage_file_with (\<lambda>l. ret ()) v idx s)) l)
   = l_sub_callbacks (lists s l)"
  by (rule stage_file_frame_gen [where g = "\<lambda>s. l_sub_callbacks (lists s l)"])
     (simp_all add: getitem_subs stage_out_frame set_parent_outputs_subs ret_def)

lemma bnd_cong_state:
  assumes "\<And>x s'. m s = (Inr x, s') \<Longrightarrow> f x s' = f' x s'"
  shows "bnd m f s = bnd m f' s"
  using assms by (auto simp: bnd_def split: prod.splits sum.splits)

lemma stage_file_any:
  assumes "l_sub_callbacks (lists s v) = []"
  shows "stage_file_with (call_callbacks_with cbk) v idx s
         = stage_file_with (\<lambda>l. ret ()) v idx s"
proof (cases "l_dataflow (lists s v)")
  case None
  then show ?thesis by (simp add: stage_file_with_def)
next
  case (Some k)
  let ?cc = "call_callbacks_with cbk"
  have tail: "bnd m (\<lambda>_. bnd (set_parent_outputs v) (\<lambda>_. ?cc v)) s1
            = bnd m (\<lambda>_. bnd (set_parent_outputs v) (\<lambda>_. ret ())) s1"
    if m: "\<And>s. lists (snd (m s)) = lists s" and s1: "l_sub_callbacks (lists s1 v) = []"
    for m :: "unit io" and s1
  proof (rule bnd_cong_state, rule bnd_cong_state)
    fix x s' y s''
    assume "m s1 = (Inr x, s')" and "set_parent_outputs v s' = (Inr y, s'')"
    then have "l_sub_callbacks (lists s'' v) = []"
      using m [of s1] s1 set_parent_outputs_subs [of v s' v] by simp
    then show "?cc v s'' = ret () s''"
      by (simp add: call_callbacks_no_subs ret_def)
  qed
  show ?thesis
    unfolding stage_file_with_def Some option.case
  proof (rule bnd_cong_state)
    fix r s1
    assume "getitem v idx s = (Inr r, s1)"
    then have s1: "l_sub_callbacks (lists s1 v) = []"
      using getitem_subs [of v idx s v] assms by simp
    show "(if f_empty (slots s1 r) \<or> f_staged_out (slots s1 r) then (Inr (), s1)
           else case l_parent (lists s1 v) of
                  None \<Rightarrow> (Inr (), s1)
                | Some p \<Rightarrow>
                    if \<not> is_df s1 r then (Inr (), s1)
                    else bnd (if l_staging_inhibited (lists s1 v) then ret ()
                              else stage_out v r k p)
                           (\<lambda>_. bnd (set_parent_outputs v) (\<lambda>_. ?cc v)) s1)
        = (if f_empty (slots s1 r) \<or> f_staged_out (slots s1 r) then (Inr (), s1)
           else case l_parent (lists s1 v) of
                  None \<Rightarrow> (Inr (), s1)
                | Some p \<Rightarrow>
                    if \<not> is_df s1 r then (Inr (), s1)
                    else bnd (if l_staging_inhibited (lists s1 v) then ret ()
                              else stage_out v r k p)
                           (\<lambda>_. bnd (set_parent_outputs v) (\<lambda>_. ret ())) s1)"
      using s1 by (auto simp: tail stage_out_frame ret_def split: option.splits)
  qed
qed

lemma each_advance_any:
  assumes "l_sub_callbacks (lists s v) = []"
  shows "each (\<lambda>i s'. (let s1 = upd_list v (\<lambda>x. x\<lparr>l_last_idx := l_last_idx x + 1\<rparr>) s'
                 in stage_file_with (call_callbacks_with cbk) v (l_last_idx (lists s1 v)) s1)) is s
       = each (\<lambda>i s'. (let s1 = upd_list v (\<lambda>x. x\<lparr>l_last_idx := l_last_idx x + 1\<rparr>) s'
                 in stage_file_with (\<lambda>l. ret ()) v (l_last_idx (lists s1 v)) s1)) is s
       \<and> l_sub_callbacks (lists (snd (each (\<lambda>i s'.
                 (let s1 = upd_list v (\<lambda>x. x\<lparr>l_last_idx := l_last_idx x + 1\<rparr>) s'
                  in stage_file_with (\<lambda>l. ret ()) v (l_last_idx (lists s1 v)) s1)) is s)) v) = []"
  using assms
proof (induction "is" arbitrary: s)
  case Nil
  then show ?case by (simp add: ret_def)
next
  case (Cons i "is")
  let ?s1 = "upd_list v (\<lambda>x. x\<lparr>l_last_idx := l_last_idx x + 1\<rparr>) s"
  let ?j = "l_last_idx (lists ?s1 v)"
  have s1: "l_sub_callbacks (lists ?s1 v) = []" using Cons.prems by (simp add: upd_list_def)
  have hd: "stage_file_with (call_callbacks_with cbk) v ?j ?s1
            = stage_file_with (\<lambda>l. ret ()) v ?j ?s1"
    using s1 by (rule stage_file_any)
  obtain res s2 where e: "stage_file_with (\<lambda>l. ret ()) v ?j ?s1 = (res, s2)"
    by (cases "stage_file_with (\<lambda>l. ret ()) v ?j ?s1")
  have s2: "l_sub_callbacks (lists s2 v) = []"
    using stage_file_skip_subs [of v ?j ?s1 v] s1 e by simp
  show ?case
    using Cons.IH [OF s2] hd e s2
    by (cases res) (simp_all add: bnd_def Let_def)
qed

lemma callback_with_skip:
  "callback_with (call_callbacks_with cbk) v s = callback_with (\<lambda>l. ret ()) v s"
proof -
  let ?cc = "call_callbacks_with cbk"
  let ?s1 = "clear_list v s"
  have ext: "extend_with ?cc v (map ADyn xs) ?s1 = extend_with (\<lambda>l. ret ()) v (map ADyn xs) ?s1"
    for xs
  proof -
    from extend_items_dyn_state [of v xs ?s1] obtain fd where
      st: "snd (extend_items v (map ADyn xs) ?s1) = upd_list v (\<lambda>x. x\<lparr>l_files_done := fd\<rparr>) ?s1"
      and rs: "fst (extend_items v (map ADyn xs) ?s1) = Inr xs
            \<or> (\<exists>e. fst (extend_items v (map ADyn xs) ?s1) = Inl e)"
      by blast
    let ?s2 = "upd_list v (\<lambda>x. x\<lparr>l_files_done := fd\<rparr>) ?s1"
    from rs show ?thesis
    proof
      assume "fst (extend_items v (map ADyn xs) ?s1) = Inr xs"
      with st have ei: "extend_items v (map ADyn xs) ?s1 = (Inr xs, ?s2)"
        by (metis prod.collapse)
      let ?s3 = "upd_list v (\<lambda>x. x\<lparr>l_items := l_items x @ xs\<rparr>) ?s2"
      have cond: "l_last_idx (lists ?s2 v) = int (length (l_items (lists ?s2 v))) - 1"
        by (simp add: clear_list_def upd_list_def)
      have s3: "l_sub_callbacks (lists ?s3 v) = []"
        by (simp add: clear_list_def upd_list_def)
      note ea = each_advance_any [OF s3, of cbk "py_range (int (length xs))"]
      define r4 where "r4 = each (\<lambda>i s'.
                 (let s1 = upd_list v (\<lambda>x. x\<lparr>l_last_idx := l_last_idx x + 1\<rparr>) s'
                  in stage_file_with (\<lambda>l. ret ()) v (l_last_idx (lists s1 v)) s1))
                 (py_range (int (length xs))) ?s3"
      have ea1: "each (\<lambda>i s'.
                 (let s1 = upd_list v (\<lambda>x. x\<lparr>l_last_idx := l_last_idx x + 1\<rparr>) s'
                  in stage_file_with ?cc v (l_last_idx (lists s1 v)) s1))
                 (py_range (int (length xs))) ?s3 = r4"
        unfolding r4_def using ea by (rule conjunct1)
      have ea2: "l_sub_callbacks (lists (snd r4) v) = []"
        unfolding r4_def using ea by (rule conjunct2)
      have fin: "?cc v (snd r4) = ret () (snd r4)"
        using ea2 by (simp add: call_callbacks_no_subs ret_def)
      have l: "extend_with ?cc v (map ADyn xs) ?s1 = bnd (\<lambda>s. r4) (\<lambda>_. ?cc v) ?s3"
        unfolding extend_with_def using ei cond by (simp add: bnd_def ea1)
      have r: "extend_with (\<lambda>l. ret ()) v (map ADyn xs) ?s1
               = bnd (\<lambda>s. r4) (\<lambda>_. ret ()) ?s3"
        unfolding extend_with_def using ei cond by (simp add: bnd_def r4_def)
      have "bnd (\<lambda>s. r4) (\<lambda>_. ?cc v) ?s3 = bnd (\<lambda>s. r4) (\<lambda>_. ret ()) ?s3"
        by (rule bnd_cong_state) (use fin in auto)
      with l r show ?thesis by simp
    next
      assume "\<exists>e. fst (extend_items v (map ADyn xs) ?s1) = Inl e"
      then obtain e where "fst (extend_items v (map ADyn xs) ?s1) = Inl e" by blast
      with st have "extend_items v (map ADyn xs) ?s1 = (Inl e, ?s2)"
        by (metis prod.collapse)
      then show ?thesis
        unfolding extend_with_def by (simp add: bnd_def)
    qed
  qed
  show ?thesis
    unfolding callback_with_def Let_def
    using ext by (auto split: option.splits pref.splits)
qed

text \<open>The refresh of a view does not depend on the callback its own
  \<^verbatim>\<open>_call_callbacks\<close> would run: that loop is over the list \<^verbatim>\<open>clear\<close> has emptied.\<close>

lemma callback_with_any:
  "callback_with (call_callbacks_with f) v s = callback_with (call_callbacks_with g) v s"
  by (simp add: callback_with_skip)

section \<open>Staging and attaching, one call\<close>

text \<open>\<^verbatim>\<open>set_parent\<close> on a list that has a parent raises \<^verbatim>\<open>ValueError\<close> and changes
  nothing; on a list without parent, filled slot and observer it attaches the pending
  task and registers the list's callback on it.\<close>

lemma set_parent_attached:
  "l_parent (lists s l) \<noteq> None \<Longrightarrow> set_parent l t s = (Inl ValueError, s)"
  by (simp add: set_parent_def set_parent_with_def)

lemma set_parent_unfilled:
  assumes "l_parent (lists s l) = None" and "l_last_idx (lists s l) = - 1"
    and "l_sub_callbacks (lists s l) = []" and "t_state (tasks s t) = PENDING"
  shows "set_parent l t s =
     (Inr (), upd_task t (\<lambda>x. x\<lparr>t_callbacks := t_callbacks x @ [TList l]\<rparr>)
                (upd_list l (\<lambda>x. x\<lparr>l_parent := Some (PTask t)\<rparr>) s))"
proof -
  let ?s2 = "upd_task t (\<lambda>x. x\<lparr>t_callbacks := t_callbacks x @ [TList l]\<rparr>)
                (upd_list l (\<lambda>x. x\<lparr>l_parent := Some (PTask t)\<rparr>) s)"
  have "l_sub_callbacks (lists ?s2 l) = []"
    using assms(3) by (simp add: upd_task_def upd_list_def)
  then have cc: "call_callbacks l ?s2 = (Inr (), ?s2)"
    unfolding call_callbacks_def by (rule call_callbacks_no_subs)
  have s2: "add_done_callback_task t (TList l) (upd_list l (\<lambda>x. x\<lparr>l_parent := Some (PTask t)\<rparr>) s)
            = ?s2"
    using assms(4) by (simp add: add_done_callback_task_def upd_list_def)
  have rg: "py_range (l_last_idx (lists ?s2 l) + 1) = []"
    using assms(2) by (simp add: py_range_def upd_task_def upd_list_def)
  show ?thesis
    using assms(1)
    by (simp add: set_parent_def set_parent_with_def Let_def s2 rg bnd_def ret_def cc)
qed

text \<open>One call of \<^verbatim>\<open>stage_file\<close> on an existing index of a list without observers:
  \<^verbatim>\<open>stage_out\<close> is called, once, exactly when the collaborator and the producing task are
  attached, the slot is not Empty, wraps a \<^verbatim>\<open>DataFuture\<close>, staging is not inhibited and
  the flag \<^verbatim>\<open>_staged_out\<close> is false. No wrapper is changed: the flag stays as it was.\<close>

lemma stage_file_fires_iff:
  assumes "0 \<le> idx" and "idx < int (length (l_items (lists s l)))"
    and "l_sub_callbacks (lists s l) = []"
  shows "(if l_dataflow (lists s l) \<noteq> None \<and> l_parent (lists s l) \<noteq> None
             \<and> \<not> f_empty (slots s (l_items (lists s l) ! nat idx))
             \<and> is_df s (l_items (lists s l) ! nat idx)
             \<and> \<not> l_staging_inhibited (lists s l)
             \<and> \<not> f_staged_out (slots s (l_items (lists s l) ! nat idx))
          then \<exists>fl. stage_log (snd (stage_file l idx s))
                       = stage_log s @ [(l, l_items (lists s l) ! nat idx, fl)]
          else stage_log (snd (stage_file l idx s)) = stage_log s)
         \<and> slots (snd (stage_file l idx s)) = slots s"
proof -
  let ?r = "l_items (lists s l) ! nat idx"
  have gi: "getitem l idx s = (Inr ?r, s)"
    using assms(1,2) by (simp add: getitem_def py_index_def Let_def)
  have tail: "bnd (set_parent_outputs l) (\<lambda>_. call_callbacks l) s1
              = (Inr (), snd (set_parent_outputs l s1))
             \<and> stage_log (snd (set_parent_outputs l s1)) = stage_log s1
             \<and> slots (snd (set_parent_outputs l s1)) = slots s1"
    if h1: "l_parent (lists s1 l) \<noteq> None" and h2: "l_sub_callbacks (lists s1 l) = []" for s1
  proof -
    obtain p where p: "l_parent (lists s1 l) = Some p" using h1 by auto
    have "l_sub_callbacks (lists (snd (set_parent_outputs l s1)) l) = []"
      using h2 by (simp add: set_parent_outputs_subs)
    then have "call_callbacks l (snd (set_parent_outputs l s1)) = (Inr (), snd (set_parent_outputs l s1))"
      unfolding call_callbacks_def by (rule call_callbacks_no_subs)
    then show ?thesis
      using p
      by (cases p) (simp_all add: set_parent_outputs_def bnd_def upd_task_def upd_list_def)
  qed
  have so: "\<exists>fl. stage_log (snd (stage_out l ?r k p s)) = stage_log s @ [(l, ?r, fl)]"
    "slots (snd (stage_out l ?r k p s)) = slots s"
    "lists (snd (stage_out l ?r k p s)) = lists s"
    if "is_df s ?r" for k p
    using that
    by (auto simp: stage_out_def is_df_def Let_def new_task_def upd_data_def
        split: fobj.splits option.splits pref.splits)
  show ?thesis
  proof (cases "l_dataflow (lists s l)")
    case None
    then show ?thesis by (simp add: stage_file_def stage_file_with_def)
  next
    case (Some k)
    show ?thesis
    proof (cases "l_parent (lists s l)")
      case None
      then show ?thesis
        using Some gi by (simp add: stage_file_def stage_file_with_def bnd_def)
    next
      case (Some p)
      note par = Some
      show ?thesis
      proof (cases "f_empty (slots s ?r) \<or> f_staged_out (slots s ?r) \<or> \<not> is_df s ?r")
        case True
        then show ?thesis
          using \<open>l_dataflow (lists s l) = Some k\<close> gi par
          by (auto simp: stage_file_def stage_file_with_def bnd_def)
      next
        case False
        show ?thesis
        proof (cases "l_staging_inhibited (lists s l)")
          case True
          have "stage_file l idx s = bnd (set_parent_outputs l) (\<lambda>_. call_callbacks l) s"
            using \<open>l_dataflow (lists s l) = Some k\<close> gi par False True
            by (simp add: stage_file_def stage_file_with_def bnd_def ret_def)
          then show ?thesis
            using tail [of s] par assms(3) True by simp
        next
          case inh: False
          obtain res s1 where e: "stage_out l ?r k p s = (res, s1)"
            by (cases "stage_out l ?r k p s")
          have s1: "slots s1 = slots s" "lists s1 = lists s"
            "\<exists>fl. stage_log s1 = stage_log s @ [(l, ?r, fl)]"
            using so [of k p] False e by simp_all
          have run: "stage_file l idx s =
              (case res of Inl x \<Rightarrow> (Inl x, s1)
               | Inr u \<Rightarrow> bnd (set_parent_outputs l) (\<lambda>_. call_callbacks l) s1)"
            using \<open>l_dataflow (lists s l) = Some k\<close> gi par False inh e
            by (simp add: stage_file_def stage_file_with_def bnd_def split: sum.splits)
          have t1: "l_parent (lists s1 l) \<noteq> None" "l_sub_callbacks (lists s1 l) = []"
            using par assms(3) by (simp_all add: s1)
          show ?thesis
            unfolding run
            using tail [OF t1] s1 \<open>l_dataflow (lists s l) = Some k\<close> par False inh
            by (cases res) auto
        qed
      qed
    qed
  qed
qed

end
